(* ===== verification/Prelude.thy ===== *)
theory Prelude
  imports Main "HOL-Library.Word" "HOL-Library.Monad_Syntax"
begin

section \<open>Prelude: C values, failing computations and shared lemmas\<close>

text \<open>
  What every other theory uses: the characters and error numbers the C code names, the
  collections of simplification facts, and the lemmas on lists and on the option monad
  that the component theories share.

  A C function whose behaviour may be undefined (a null pointer is read, a write leaves its
  buffer) is modelled by a function into \<open>'a option\<close>: \<open>None\<close> stands for the undefined
  behaviour and \<open>Some r\<close> for a run that returns \<open>r\<close>. Return codes, error results
  included, are ordinary values of \<open>r\<close>.
\<close>

named_theorems frame_simps
  \<open>facts that say which fields of the image an operation leaves alone\<close>

named_theorems path_simps
  \<open>facts that compute path functions on canonical paths\<close>

subsection \<open>Characters and error numbers\<close>

abbreviation NUL :: char where
  "NUL \<equiv> CHR 0x00"

abbreviation slash :: char where
  "slash \<equiv> CHR ''/''"

text \<open>The values of \<open><errno.h>\<close> on Linux that the code returns (negated, mostly).\<close>

definition EPERM :: int where "EPERM = 1"
definition ENOENT :: int where "ENOENT = 2"
definition EAGAIN :: int where "EAGAIN = 11"
definition EEXIST :: int where "EEXIST = 17"
definition EINVAL :: int where "EINVAL = 22"

lemmas errno_defs = EPERM_def ENOENT_def EAGAIN_def EEXIST_def EINVAL_def

subsection \<open>The option monad\<close>

lemma bind_Some_iff: "Option.bind m f = Some y \<longleftrightarrow> (\<exists>x. m = Some x \<and> f x = Some y)"
  by (cases m) auto

lemma bind_pair_Some_iff:
  "Option.bind m (\<lambda>(a, b). f a b) = Some y \<longleftrightarrow> (\<exists>a b. m = Some (a, b) \<and> f a b = Some y)"
  by (cases m) auto

lemma bind_not_None:
  "m = Some x \<Longrightarrow> f x \<noteq> None \<Longrightarrow> Option.bind m f \<noteq> None"
  by simp

subsection \<open>Lists\<close>

lemma takeWhile_neq_append [simp]:
  "c \<notin> set xs \<Longrightarrow> takeWhile (\<lambda>x. x \<noteq> c) (xs @ c # ys) = xs"
  by (induction xs) auto

lemma dropWhile_neq_append [simp]:
  "c \<notin> set xs \<Longrightarrow> dropWhile (\<lambda>x. x \<noteq> c) (xs @ c # ys) = c # ys"
  by (induction xs) auto

lemma takeWhile_neq_id:
  "c \<notin> set xs \<Longrightarrow> takeWhile (\<lambda>x. x \<noteq> c) xs = xs"
  by (induction xs) auto

lemma dropWhile_eq_hd:
  "xs = [] \<or> hd xs \<noteq> c \<Longrightarrow> dropWhile (\<lambda>x. x = c) xs = xs"
  by (cases xs) auto

lemma split_at_first:
  assumes "c \<in> set xs"
  shows "xs = takeWhile (\<lambda>x. x \<noteq> c) xs @ c # tl (dropWhile (\<lambda>x. x \<noteq> c) xs)"
  using assms by (induction xs) auto

lemma length_tl_dropWhile_less:
  "c \<in> set xs \<Longrightarrow> length (tl (dropWhile (\<lambda>x. x \<noteq> c) xs)) < length xs"
  by (induction xs) (auto simp: less_Suc_eq)

subsection \<open>32-bit numbers\<close>

lemma sint_word_of_nat: "n < 2 ^ 31 \<Longrightarrow> sint (word_of_nat n :: 32 word) = int n"
  by (simp add: signed_of_nat signed_take_bit_int_eq_self)

lemma sint_small:
  assumes "unat k < 2 ^ 31"
  shows "sint (k :: 32 word) = int (unat k)"
  using sint_word_of_nat [OF assms] by simp

end
