(* ===== verification/C_Strings.thy ===== *)
theory C_Strings
  imports Prelude
begin

section \<open>The C library's string and path functions the code calls\<close>

text \<open>
  The functions of \<open><string.h>\<close> and \<open><libgen.h>\<close> used under \<open>src/src\<close>, on C strings
  without their terminator, and \<open>canonical paths\<close>: the absolute paths the kernel hands to
  a FUSE file system, as lists of components. \<open>basename\<close> is the POSIX one
  (\<open>adfimage.c\<close> and \<open>adffs.c\<close> include \<open><libgen.h>\<close>); both it and \<open>dirname\<close> follow
  glibc, including the result for a null pointer.
\<close>

subsection \<open>Searching\<close>

text \<open>\<open>strstr\<close>: the index of the first occurrence.\<close>

fun strstr :: "string \<Rightarrow> string \<Rightarrow> nat option" where
  "strstr [] pat = (if pat = [] then Some 0 else None)"
| "strstr (c # cs) pat =
     (if take (length pat) (c # cs) = pat then Some 0 else map_option Suc (strstr cs pat))"

text \<open>\<open>rindex\<close>: the index of the last occurrence of a character.\<close>

fun rindex :: "string \<Rightarrow> char \<Rightarrow> nat option" where
  "rindex [] c = None"
| "rindex (x # xs) c =
     (case rindex xs c of Some i \<Rightarrow> Some (Suc i) | None \<Rightarrow> if x = c then Some 0 else None)"

text \<open>
  \<open>strchr\<close>, as \<open>adfimage_chdir\<close> uses it: the text before the first occurrence of the
  character and the text after it.
\<close>

definition strchr_cut :: "string \<Rightarrow> char \<Rightarrow> (string \<times> string) option" where
  "strchr_cut s c =
     (if c \<in> set s then Some (takeWhile (\<lambda>x. x \<noteq> c) s, tl (dropWhile (\<lambda>x. x \<noteq> c) s))
      else None)"

lemma strstr_Some:
  "strstr s pat = Some i \<Longrightarrow> i + length pat \<le> length s \<and> take (length pat) (drop i s) = pat"
proof (induction s arbitrary: i)
  case Nil
  then show ?case by (simp split: if_splits)
next
  case (Cons c cs)
  show ?case
  proof (cases "take (length pat) (c # cs) = pat")
    case True
    with Cons.prems have "i = 0" by simp
    moreover from True have "length pat \<le> length (c # cs)"
      by (metis length_take min.cobounded1)
    ultimately show ?thesis using True by simp
  next
    case False
    with Cons.prems obtain j where "strstr cs pat = Some j" and "i = Suc j" by auto
    with Cons.IH [of j] show ?thesis by simp
  qed
qed

lemma match_nthD:
  assumes "take (length pat) (drop i s) = pat" "j < length pat"
  shows "i + j < length s" "s ! (i + j) = pat ! j"
proof -
  have "length (take (length pat) (drop i s)) = length pat" using assms(1) by simp
  with assms(2) show len: "i + j < length s" by simp
  have "pat ! j = take (length pat) (drop i s) ! j" using assms(1) by simp
  also have "\<dots> = s ! (i + j)" using len assms(2) by (simp add: nth_take)
  finally show "s ! (i + j) = pat ! j" by simp
qed

lemma strstr_nth:
  assumes "strstr s pat = Some i" "j < length pat"
  shows "i + j < length s" "s ! (i + j) = pat ! j"
  using match_nthD [OF conjunct2 [OF strstr_Some [OF assms(1)]] assms(2)] by simp_all

lemma strstr_None_iff:
  "strstr s pat = None \<longleftrightarrow> (\<forall>i \<le> length s. take (length pat) (drop i s) \<noteq> pat)"
proof (induction s)
  case Nil
  then show ?case by auto
next
  case (Cons c cs)
  have "(\<forall>i < Suc (length (c # cs)). take (length pat) (drop i (c # cs)) \<noteq> pat) \<longleftrightarrow>
      take (length pat) (c # cs) \<noteq> pat \<and> (\<forall>i < Suc (length cs). take (length pat) (drop i cs) \<noteq> pat)"
    by (subst All_less_Suc2) simp
  with Cons.IH show ?case by (simp add: less_Suc_eq_le)
qed

lemma strstr_first:
  "strstr s pat = Some i \<Longrightarrow> j < i \<Longrightarrow> take (length pat) (drop j s) \<noteq> pat"
proof (induction s arbitrary: i j)
  case Nil
  then show ?case by (simp split: if_splits)
next
  case (Cons c cs)
  then show ?case by (cases j) (auto split: if_splits)
qed

lemma rindex_None_iff: "rindex s c = None \<longleftrightarrow> c \<notin> set s"
  by (induction s) (auto split: option.splits)

lemma rindex_Some:
  "rindex s c = Some i \<Longrightarrow> i < length s \<and> s ! i = c \<and> c \<notin> set (drop (Suc i) s)"
proof (induction s arbitrary: i)
  case Nil
  then show ?case by simp
next
  case (Cons x xs)
  then show ?case
    by (cases "rindex xs c") (auto simp: rindex_None_iff split: if_splits)
qed

subsection \<open>\<open>dirname\<close> and \<open>basename\<close>\<close>

text \<open>\<open>s\<close> without its trailing slashes; the result is empty when \<open>s\<close> is all slashes.\<close>

definition strip_trailing :: "string \<Rightarrow> string" where
  "strip_trailing s = rev (dropWhile (\<lambda>c. c = slash) (rev s))"

text \<open>The part up to and including the last slash, and the part behind it.\<close>

definition upto_last_slash :: "string \<Rightarrow> string" where
  "upto_last_slash s = rev (dropWhile (\<lambda>c. c \<noteq> slash) (rev s))"

definition after_last_slash :: "string \<Rightarrow> string" where
  "after_last_slash s = rev (takeWhile (\<lambda>c. c \<noteq> slash) (rev s))"

text \<open>
  glibc's \<open>dirname\<close>: the trailing slashes are not part of the last component (unless there is
  nothing else), what precedes the last component loses its own trailing slashes, and a
  string of exactly two leading slashes is kept as \<open>//\<close>.
\<close>

definition dirname :: "string \<Rightarrow> string" where
  "dirname s =
     (let body = (if strip_trailing s = [] then s else strip_trailing s) in
      if slash \<notin> set body then ''.''
      else let pre = upto_last_slash body; stem = strip_trailing pre in
        if stem \<noteq> [] then stem else if length pre = 2 then ''//'' else ''/'')"

definition basename :: "string \<Rightarrow> string" where
  "basename s =
     (if s = [] then ''.''
      else if strip_trailing s = [] then ''/''
      else after_last_slash (strip_trailing s))"

text \<open>Both map a null pointer to \<open>.\<close>.\<close>

definition dirname_ptr :: "string option \<Rightarrow> string" where
  "dirname_ptr p = (case p of None \<Rightarrow> ''.'' | Some s \<Rightarrow> dirname s)"

definition basename_ptr :: "string option \<Rightarrow> string" where
  "basename_ptr p = (case p of None \<Rightarrow> ''.'' | Some s \<Rightarrow> basename s)"

lemma ptr_simps [simp]:
  "dirname_ptr (Some s) = dirname s" "dirname_ptr None = ''.''"
  "basename_ptr (Some s) = basename s" "basename_ptr None = ''.''"
  by (simp_all add: dirname_ptr_def basename_ptr_def)

text \<open>\<open>dirname\<close> never returns the empty string.\<close>

lemma dirname_nonempty [simp]: "dirname s \<noteq> []"
  by (simp add: dirname_def Let_def)

lemma basename_nonempty [simp]: "basename s \<noteq> []"
proof -
  have "after_last_slash t \<noteq> []" if "t \<noteq> []" "last t \<noteq> slash" for t
    using that by (cases t rule: rev_cases) (auto simp: after_last_slash_def)
  moreover have "last (strip_trailing s) \<noteq> slash" if "strip_trailing s \<noteq> []"
    using that hd_dropWhile [of "\<lambda>c. c = slash" "rev s"]
    by (simp add: strip_trailing_def last_rev)
  ultimately show ?thesis by (simp add: basename_def)
qed

subsection \<open>Canonical paths\<close>

text \<open>
  A component name: not empty, no slash, no terminator, not one of the two special names.
  A canonical path is \<open>/\<close> or a sequence of components, each with a slash before it.
\<close>

definition is_name :: "string \<Rightarrow> bool" where
  "is_name c \<longleftrightarrow> c \<noteq> [] \<and> slash \<notin> set c \<and> NUL \<notin> set c \<and> c \<noteq> ''.'' \<and> c \<noteq> ''..''"

definition abspath :: "string list \<Rightarrow> string" where
  "abspath cs = (if cs = [] then ''/'' else concat (map (\<lambda>c. slash # c) cs))"

text \<open>The same components as a relative path: without the leading slash.\<close>

definition relpath :: "string list \<Rightarrow> string" where
  "relpath cs = tl (abspath cs)"

lemma abspath_Nil [simp, path_simps]: "abspath [] = ''/''"
  by (simp add: abspath_def)

lemma relpath_Nil [simp]: "relpath [] = ''''"
  by (simp add: relpath_def)

lemma abspath_single [simp, path_simps]: "abspath [c] = slash # c"
  by (simp add: abspath_def)

lemma abspath_Cons_relpath: "abspath cs = slash # relpath cs"
  by (cases cs) (auto simp: abspath_def relpath_def)

lemma relpath_single [simp, path_simps]: "relpath [c] = c"
  by (simp add: relpath_def abspath_def)

lemma relpath_Cons:
  "relpath (c # cs) = (if cs = [] then c else c @ slash # relpath cs)"
  by (cases cs) (auto simp: relpath_def abspath_def)

lemma abspath_snoc:
  "abspath (cs @ [c]) = (if cs = [] then slash # c else abspath cs @ slash # c)"
  by (simp add: abspath_def)

lemma abspath_nonempty [simp]: "abspath cs \<noteq> []"
  by (cases cs) (auto simp: abspath_def)

lemma hd_abspath [simp]: "hd (abspath cs) = slash"
  by (cases cs) (auto simp: abspath_def)

lemma set_relpath: "set (relpath cs) \<subseteq> insert slash (\<Union>c\<in>set cs. set c)"
  by (induction cs) (auto simp: relpath_Cons)

lemma length_abspath_append: "length (abspath cs) \<le> length (abspath (cs @ ds))"
  by (cases ds) (auto simp: abspath_def length_concat)

lemma length_abspath_append_le: "length (abspath (cs @ ds)) \<le> length (abspath cs) + length (abspath ds)"
  by (cases cs; cases ds) (auto simp: abspath_def length_concat)

lemma length_abspath_snoc_less: "is_name c \<Longrightarrow> length (abspath cs) < length (abspath (cs @ [c]))"
  by (cases cs; cases c) (auto simp: abspath_def length_concat is_name_def)

lemma length_abspath_sum:
  "cs \<noteq> [] \<Longrightarrow> length (abspath cs) = (\<Sum>c\<leftarrow>cs. Suc (length c))"
  by (simp add: abspath_def length_concat o_def)

lemma is_nameD:
  assumes "is_name c"
  shows "c \<noteq> []" "slash \<notin> set c" "NUL \<notin> set c" "c \<noteq> ''.''" "c \<noteq> ''..''"
  using assms by (simp_all add: is_name_def)

lemma strip_trailing_id: "s = [] \<or> last s \<noteq> slash \<Longrightarrow> strip_trailing s = s"
  by (cases s rule: rev_cases) (auto simp: strip_trailing_def)

lemma strip_trailing_snoc [simp]: "strip_trailing (s @ [slash]) = strip_trailing s"
  by (simp add: strip_trailing_def)

lemma last_abspath:
  "cs \<noteq> [] \<Longrightarrow> last cs \<noteq> [] \<Longrightarrow> last (abspath cs) = last (last cs)"
  by (cases cs rule: rev_cases) (auto simp: abspath_snoc)

lemma upto_last_slash_snoc: "slash \<notin> set c \<Longrightarrow> upto_last_slash (s @ slash # c) = s @ [slash]"
proof -
  assume "slash \<notin> set c"
  then have "slash \<notin> set (rev c)" by simp
  then show ?thesis by (simp add: upto_last_slash_def)
qed

lemma after_last_slash_snoc: "slash \<notin> set c \<Longrightarrow> after_last_slash (s @ slash # c) = c"
proof -
  assume "slash \<notin> set c"
  then have "slash \<notin> set (rev c)" by simp
  then show ?thesis by (simp add: after_last_slash_def)
qed

lemma last_name: "is_name c \<Longrightarrow> last c \<noteq> slash"
  by (metis is_nameD(1,2) last_in_set)

lemma abspath_parts:
  assumes "is_name c"
  shows "strip_trailing (abspath (cs @ [c])) = abspath (cs @ [c])"
    and "\<exists>s. abspath (cs @ [c]) = s @ slash # c \<and> s @ [slash] = (if cs = [] then ''/'' else abspath cs @ ''/'')"
  using assms last_name [OF assms]
  by (auto intro!: strip_trailing_id simp: abspath_snoc dest: is_nameD)

lemma strip_trailing_abspath:
  assumes "\<forall>c\<in>set cs. is_name c" "cs \<noteq> []"
  shows "strip_trailing (abspath cs) = abspath cs"
  using assms by (cases cs rule: rev_cases) (auto intro: abspath_parts(1))

text \<open>On a canonical path, \<open>dirname\<close> and \<open>basename\<close> split off the last component.\<close>

lemma dirname_abspath [path_simps]:
  assumes "\<forall>c\<in>set cs. is_name c" "is_name c"
  shows "dirname (abspath (cs @ [c])) = abspath cs"
proof -
  have c: "slash \<notin> set c" using assms(2) by (rule is_nameD)
  note st = abspath_parts(1) [OF assms(2), of cs]
  show ?thesis
  proof (cases "cs = []")
    case True
    have "upto_last_slash (slash # c) = ''/''"
      using upto_last_slash_snoc [OF c, of "[]"] by simp
    moreover have "strip_trailing ''/'' = ''''" by (simp add: strip_trailing_def)
    ultimately show ?thesis using st True by (simp add: dirname_def Let_def)
  next
    case False
    have "upto_last_slash (abspath cs @ slash # c) = abspath cs @ [slash]"
      by (rule upto_last_slash_snoc [OF c])
    with False st strip_trailing_abspath [OF assms(1) False] show ?thesis
      by (simp add: dirname_def Let_def abspath_snoc)
  qed
qed

lemma basename_abspath [path_simps]:
  assumes "is_name c"
  shows "basename (abspath (cs @ [c])) = c"
proof -
  have c: "slash \<notin> set c" using assms by (rule is_nameD)
  have "after_last_slash (abspath (cs @ [c])) = c"
    using after_last_slash_snoc [OF c, of "[]"] after_last_slash_snoc [OF c, of "abspath cs"]
    by (auto simp: abspath_snoc)
  with abspath_parts(1) [OF assms, of cs] show ?thesis by (simp add: basename_def)
qed

lemma dirname_no_slash: "slash \<notin> set s \<Longrightarrow> dirname s = ''.''"
proof -
  assume *: "slash \<notin> set s"
  then have "strip_trailing s = s"
    by (intro strip_trailing_id) (metis last_in_set)
  with * show ?thesis by (simp add: dirname_def)
qed

lemma basename_no_slash: "slash \<notin> set s \<Longrightarrow> s \<noteq> [] \<Longrightarrow> basename s = s"
proof -
  assume *: "slash \<notin> set s" "s \<noteq> []"
  then have "strip_trailing s = s"
    by (intro strip_trailing_id) (metis last_in_set)
  moreover have "after_last_slash s = s"
    unfolding after_last_slash_def using * by (subst takeWhile_neq_id) auto
  ultimately show ?thesis using * by (simp add: basename_def)
qed

text \<open>The same for the relative form that \<open>mkdir\<close>, \<open>create\<close> and \<open>unlink\<close> work on.\<close>

lemma relpath_snoc: "relpath (cs @ [c]) = (if cs = [] then c else relpath cs @ slash # c)"
  by (simp add: relpath_def abspath_snoc)

lemma dirname_relpath [path_simps]:
  assumes "\<forall>c\<in>set cs. is_name c" "is_name c"
  shows "dirname (relpath (cs @ [c])) = (if cs = [] then ''.'' else relpath cs)"
proof (cases "cs = []")
  case True
  then show ?thesis using assms(2) by (simp add: dirname_no_slash is_nameD)
next
  case False
  have c: "slash \<notin> set c" using assms(2) by (rule is_nameD)
  from False obtain ds d where cs: "cs = ds @ [d]" by (cases cs rule: rev_cases) auto
  with assms(1) have d: "is_name d" by simp
  have rel: "relpath cs \<noteq> []" "last (relpath cs) \<noteq> slash"
    using last_name [OF d] is_nameD(1) [OF d] by (simp_all add: cs relpath_snoc)
  have st: "strip_trailing (relpath cs @ slash # c) = relpath cs @ slash # c"
    using last_name [OF assms(2)] is_nameD(1) [OF assms(2)]
    by (intro strip_trailing_id) auto
  show ?thesis
    using False st rel upto_last_slash_snoc [OF c, of "relpath cs"] strip_trailing_id [of "relpath cs"]
    by (simp add: dirname_def Let_def relpath_snoc)
qed

lemma basename_relpath [path_simps]:
  assumes "is_name c"
  shows "basename (relpath (cs @ [c])) = c"
proof (cases "cs = []")
  case True
  then show ?thesis using assms by (simp add: basename_no_slash is_nameD)
next
  case False
  have c: "slash \<notin> set c" using assms by (rule is_nameD)
  have "strip_trailing (relpath cs @ slash # c) = relpath cs @ slash # c"
    using last_name [OF assms] is_nameD(1) [OF assms] by (intro strip_trailing_id) auto
  then show ?thesis
    using False after_last_slash_snoc [OF c, of "relpath cs"]
    by (simp add: basename_def relpath_snoc)
qed

text \<open>
  \<open>path_split\<close>: the interface between the splitting of a path and its users. \<open>dir\<close> and
  \<open>base\<close> take apart what \<open>path\<close> puts together, for the names \<open>ok\<close> accepts.
\<close>

locale path_split =
  fixes path :: "string list \<Rightarrow> string"
    and dir :: "string \<Rightarrow> string"
    and base :: "string \<Rightarrow> string"
    and ok :: "string \<Rightarrow> bool"
  assumes dir_snoc: "\<forall>c\<in>set cs. ok c \<Longrightarrow> ok c \<Longrightarrow> dir (path (cs @ [c])) = path cs"
    and base_snoc: "ok c \<Longrightarrow> base (path (cs @ [c])) = c"
begin

lemma base_inj:
  "ok c \<Longrightarrow> ok d \<Longrightarrow> path (cs @ [c]) = path (ds @ [d]) \<Longrightarrow> c = d"
  by (metis base_snoc)

lemma path_inj:
  assumes "\<forall>c\<in>set cs. ok c" "\<forall>d\<in>set ds. ok d" "length cs = length ds" "path cs = path ds"
  shows "cs = ds"
  using assms
proof (induction cs ds rule: rev_induct2)
  case (4 c cs d ds)
  then have "c = d" by (auto dest: base_inj)
  moreover have "path cs = path ds"
    using dir_snoc [of cs c] dir_snoc [of ds d] "4.prems" by auto
  ultimately show ?case using 4 by auto
qed auto

end

interpretation fuse: path_split abspath dirname basename is_name
  by unfold_locales (simp_all add: path_simps)

end
