(* ===== verification/C_Memory.thy ===== *)
theory C_Memory
  imports C_Strings
begin

section \<open>Buffers and allocation\<close>

text \<open>
  A \<open>char\<close> buffer is the list of its bytes, terminator and everything behind it included;
  a read or write past its end is \<open>None\<close>. \<open>cres\<close> is the outcome of a run that ends:
  with a value, or in undefined behaviour. A loop over a buffer that may never end returns
  \<open>'a cres option\<close>: \<open>None\<close> if it does not return.

  The outcomes of \<open>malloc\<close> and \<open>strdup\<close> are not decided by the program. They are a
  list of booleans that the program consumes, one for each call; when the list is used up,
  allocation succeeds.
\<close>

subsection \<open>Buffers\<close>

type_synonym cbuf = "char list"

datatype 'a cres = UB | Ret 'a

definition cstr :: "cbuf \<Rightarrow> string" where
  "cstr buf = takeWhile (\<lambda>c. c \<noteq> NUL) buf"

definition rd :: "cbuf \<Rightarrow> nat \<Rightarrow> char option" where
  "rd buf i = (if i < length buf then Some (buf ! i) else None)"

definition wr :: "cbuf \<Rightarrow> nat \<Rightarrow> char \<Rightarrow> cbuf option" where
  "wr buf i c = (if i < length buf then Some (buf[i := c]) else None)"

text \<open>\<open>strstr (buf + off, pat)\<close>, as an index into \<open>buf\<close>.\<close>

definition strstr_from :: "cbuf \<Rightarrow> nat \<Rightarrow> string \<Rightarrow> nat option" where
  "strstr_from buf off pat = map_option ((+) off) (strstr (cstr (drop off buf)) pat)"

lemma rd_simps [simp]:
  "i < length buf \<Longrightarrow> rd buf i = Some (buf ! i)"
  "\<not> i < length buf \<Longrightarrow> rd buf i = None"
  by (simp_all add: rd_def)

lemma wr_simps [simp]:
  "i < length buf \<Longrightarrow> wr buf i c = Some (buf[i := c])"
  "\<not> i < length buf \<Longrightarrow> wr buf i c = None"
  by (simp_all add: wr_def)

lemma cstr_terminated [simp]: "NUL \<notin> set s \<Longrightarrow> cstr (s @ NUL # r) = s"
  by (simp add: cstr_def)

lemma cstr_prefix: "\<exists>r. buf = cstr buf @ r"
  by (metis cstr_def takeWhile_dropWhile_id)

lemma NUL_notin_cstr [simp]: "NUL \<notin> set (cstr buf)"
  by (auto simp: cstr_def dest: set_takeWhileD)

lemma length_cstr_le: "length (cstr buf) \<le> length buf"
  by (simp add: cstr_def length_takeWhile_le)

lemma cstr_terminator:
  assumes "NUL \<in> set buf"
  shows "length (cstr buf) < length buf" "buf ! length (cstr buf) = NUL"
proof -
  from assms obtain r where "buf = cstr buf @ NUL # r"
    unfolding cstr_def using split_at_first by fastforce
  then show "length (cstr buf) < length buf" "buf ! length (cstr buf) = NUL"
    by (metis length_append less_add_same_cancel1 list.size(4) zero_less_Suc add_Suc_right,
        metis nth_append_length)
qed

lemma cstr_truncate:
  assumes "i \<le> length (cstr buf)" "i < length buf"
  shows "cstr (buf[i := NUL]) = take i (cstr buf)"
proof -
  have "buf[i := NUL] = take i (cstr buf) @ NUL # drop (Suc i) buf"
    using assms cstr_prefix [of buf]
    by (metis take_all_iff take_append append_Nil2 diff_is_0_eq' take_0 upd_conv_take_nth_drop)
  moreover have "NUL \<notin> set (take i (cstr buf))"
    by (meson NUL_notin_cstr in_set_takeD)
  ultimately show ?thesis by simp
qed

subsection \<open>Allocation\<close>

type_synonym heap = "bool list"

definition malloc :: "heap \<Rightarrow> bool \<times> heap" where
  "malloc h = (case h of [] \<Rightarrow> (True, []) | ok # h' \<Rightarrow> (ok, h'))"

definition strdup :: "string \<Rightarrow> heap \<Rightarrow> string option \<times> heap" where
  "strdup s h = (case malloc h of (ok, h') \<Rightarrow> (if ok then Some s else None, h'))"

lemma malloc_ok [simp]: "malloc [] = (True, [])"
  by (simp add: malloc_def)

lemma strdup_ok [simp]: "strdup s [] = (Some s, [])"
  by (simp add: strdup_def)

end
