(* ===== verification/Path_Util.thy ===== *)
theory Path_Util
  imports C_Memory
begin

section \<open>Path strings: \<open>src/src/util.h\<close>\<close>

text \<open>
  The inline functions of \<open>util.h\<close>: trimming and rewriting path strings in place, and the
  \<open>path_t\<close> pair of directory part and entry name. The rewriting loops work on buffers, as
  the code does; for each, the lemmas say on which strings it returns, with what result, and
  that on every other string it never returns.
\<close>

subsection \<open>Trimming\<close>

text \<open>\<open>pathstr_remove_trailing_slashes\<close>: cut at the last slash while it ends the string.\<close>

function pathstr_remove_trailing_slashes :: "cbuf \<Rightarrow> cbuf option" where
  "pathstr_remove_trailing_slashes path =
     (case rindex (cstr path) slash of
        None \<Rightarrow> Some path
      | Some slashptr \<Rightarrow>
          (case rd path (slashptr + 1) of
             None \<Rightarrow> None
           | Some c \<Rightarrow>
               if c = NUL then pathstr_remove_trailing_slashes (path[slashptr := NUL])
               else Some path))"
  by pat_completeness auto
termination
proof (relation "measure (\<lambda>path. length (cstr path))", simp, clarsimp split: if_splits)
  fix path i c
  assume "rindex (cstr path) slash = Some i"
  then have "i < length (cstr path)" by (simp add: rindex_Some)
  with length_cstr_le [of path] show "length (cstr (path[i := NUL])) < length (cstr path)"
    by (simp add: cstr_truncate)
qed

definition pathstr_get_relative :: "string \<Rightarrow> string" where
  "pathstr_get_relative path = dropWhile (\<lambda>c. c = slash) path"

definition pathstr_is_non_empty :: "string \<Rightarrow> bool" where
  "pathstr_is_non_empty path = (path \<noteq> [])"

subsection \<open>Rewriting in place\<close>

text \<open>
  The shifting loop that three of the functions share,
  \<^verbatim>\<open>do { *p = *(p + 1); } while ( *(p + 1) != '\0' );\<close>
  The pointer \<open>p\<close> does not move in it.
\<close>

partial_function (option) shift_loop :: "cbuf \<Rightarrow> nat \<Rightarrow> cbuf cres option" where
  "shift_loop buf p =
     (case rd buf (p + 1) of
        None \<Rightarrow> Some UB
      | Some c \<Rightarrow>
          (case wr buf p c of
             None \<Rightarrow> Some UB
           | Some buf' \<Rightarrow>
               (case rd buf' (p + 1) of
                  None \<Rightarrow> Some UB
                | Some c' \<Rightarrow> if c' \<noteq> NUL then shift_loop buf' p else Some (Ret buf'))))"

text \<open>\<open>pathstr_remove_double_slashes\<close>; \<open>path\<close> is the pointer the loop moves.\<close>

partial_function (option) remove_double_slashes_from :: "cbuf \<Rightarrow> nat \<Rightarrow> cbuf cres option" where
  "remove_double_slashes_from buf path =
     (case strstr_from buf path ''//'' of
        None \<Rightarrow> Some (Ret buf)
      | Some doubleslash_ptr \<Rightarrow>
          (case shift_loop buf (doubleslash_ptr + 1) of
             None \<Rightarrow> None
           | Some r \<Rightarrow>
               (case r of
                  UB \<Rightarrow> Some UB
                | Ret buf' \<Rightarrow> remove_double_slashes_from buf' doubleslash_ptr)))"

definition pathstr_remove_double_slashes :: "cbuf \<Rightarrow> cbuf cres option" where
  "pathstr_remove_double_slashes path = remove_double_slashes_from path 0"

text \<open>The two loops of \<open>pathstr_dirparent_u2a\<close>.\<close>

partial_function (option) replace_parents :: "cbuf \<Rightarrow> cbuf cres option" where
  "replace_parents buf =
     (case strstr (cstr buf) ''../'' of
        None \<Rightarrow> Some (Ret buf)
      | Some parentptr \<Rightarrow>
          (case wr buf parentptr slash of
             None \<Rightarrow> Some UB
           | Some buf1 \<Rightarrow>
               (case shift_loop buf1 (parentptr + 1) of
                  None \<Rightarrow> None
                | Some r \<Rightarrow>
                    (case r of
                       UB \<Rightarrow> Some UB
                     | Ret buf2 \<Rightarrow> replace_parents buf2))))"

partial_function (option) replace_final_parent :: "cbuf \<Rightarrow> cbuf cres option" where
  "replace_final_parent buf =
     (case strstr (cstr buf) ''/..'' of
        None \<Rightarrow> Some (Ret buf)
      | Some parentptr \<Rightarrow>
          (case rd buf (parentptr + 3) of
             None \<Rightarrow> Some UB
           | Some c \<Rightarrow>
               if c = NUL then
                 (case wr buf (parentptr + 1) slash of
                    None \<Rightarrow> Some UB
                  | Some buf1 \<Rightarrow>
                      (case shift_loop buf1 (parentptr + 2) of
                         None \<Rightarrow> None
                       | Some r \<Rightarrow>
                           (case r of
                              UB \<Rightarrow> Some UB
                            | Ret buf2 \<Rightarrow> replace_final_parent buf2)))
               else replace_final_parent buf))"

definition pathstr_dirparent_u2a :: "cbuf \<Rightarrow> cbuf cres option" where
  "pathstr_dirparent_u2a pathstr =
     (case replace_parents pathstr of
        None \<Rightarrow> None
      | Some UB \<Rightarrow> Some UB
      | Some (Ret buf) \<Rightarrow> replace_final_parent buf)"

definition pathstr_fuse2amigados :: "cbuf \<Rightarrow> cbuf cres option" where
  "pathstr_fuse2amigados pathstr =
     (case pathstr_remove_double_slashes pathstr of
        None \<Rightarrow> None
      | Some UB \<Rightarrow> Some UB
      | Some (Ret buf) \<Rightarrow> pathstr_dirparent_u2a buf)"

subsection \<open>Directory part and entry name\<close>

record path_t =
  dirpath :: string
  entryname :: string

text \<open>\<open>path_create\<close>: three allocations; a failure frees what was allocated and gives NULL.\<close>

definition path_create :: "string \<Rightarrow> heap \<Rightarrow> path_t option \<times> heap" where
  "path_create path_str h =
     (case malloc h of (ok, h1) \<Rightarrow>
        if \<not> ok then (None, h1)
        else case strdup path_str h1 of (dirpath_buf, h2) \<Rightarrow>
          if dirpath_buf = None then (None, h2)
          else case strdup path_str h2 of (entryname_buf, h3) \<Rightarrow>
            if entryname_buf = None then (None, h3)
            else (Some \<lparr>dirpath = dirname_ptr dirpath_buf,
                        entryname = basename_ptr entryname_buf\<rparr>, h3))"

definition path_is_dirpath_non_empty :: "path_t \<Rightarrow> bool" where
  "path_is_dirpath_non_empty path = (dirpath path \<noteq> [])"

definition path_is_entryname_non_empty :: "path_t \<Rightarrow> bool" where
  "path_is_entryname_non_empty path = (dirpath path \<noteq> [])"

lemma path_create_ok [simp]:
  "path_create s [] = (Some \<lparr>dirpath = dirname s, entryname = basename s\<rparr>, [])"
  by (simp add: path_create_def)

text \<open>Either all allocations succeed, and the path is split, or the result is NULL.\<close>

lemma path_create_result:
  "fst (path_create s h) = None \<or>
   fst (path_create s h) = Some \<lparr>dirpath = dirname s, entryname = basename s\<rparr>"
  by (auto simp: path_create_def strdup_def split: prod.split)

lemma path_create_SomeD:
  "path_create s h = (Some p, h') \<Longrightarrow> dirpath p = dirname s \<and> entryname p = basename s"
  using path_create_result [of s h] by auto

subsection \<open>What the trimming functions compute\<close>

lemma strip_trailing_at_last_slash:
  assumes "rindex s slash = Some i" "Suc i = length s"
  shows "strip_trailing s = strip_trailing (take i s)"
proof -
  from rindex_Some [OF assms(1)] assms(2) have "s = take i s @ [slash]"
    by (metis lessI take_Suc_conv_app_nth take_all_iff order_refl)
  then show ?thesis by (metis strip_trailing_snoc)
qed

lemma rindex_before_NUL:
  assumes "NUL \<in> set buf" "rindex (cstr buf) c = Some i"
  shows "buf ! (i + 1) = NUL \<longleftrightarrow> Suc i = length (cstr buf)"
proof
  assume nul: "buf ! (i + 1) = NUL"
  show "Suc i = length (cstr buf)"
  proof (rule ccontr)
    assume "Suc i \<noteq> length (cstr buf)"
    with rindex_Some [OF assms(2)] have "i + 1 < length (cstr buf)" by simp
    moreover from this have "cstr buf ! (i + 1) = NUL"
      using nul cstr_prefix [of buf] by (metis nth_append)
    ultimately show False by (metis NUL_notin_cstr nth_mem)
  qed
next
  assume "Suc i = length (cstr buf)"
  with cstr_terminator [OF assms(1)] show "buf ! (i + 1) = NUL" by simp
qed

text \<open>
  C31: On every terminated buffer the trimming loop ends, reads inside the buffer, and leaves
  the text without its trailing slashes (the empty text if there was nothing else).
\<close>

theorem remove_trailing_slashes_strips:
  "NUL \<in> set buf \<Longrightarrow>
   \<exists>buf'. pathstr_remove_trailing_slashes buf = Some buf' \<and> cstr buf' = strip_trailing (cstr buf)"
proof (induction buf rule: pathstr_remove_trailing_slashes.induct)
  case (1 path)
  note tm = cstr_terminator [OF "1.prems"]
  show ?case
  proof (cases "rindex (cstr path) slash")
    case None
    then have "slash \<notin> set (cstr path)" by (simp add: rindex_None_iff)
    then have "strip_trailing (cstr path) = cstr path"
      by (intro strip_trailing_id) (metis last_in_set)
    with None show ?thesis by (subst pathstr_remove_trailing_slashes.simps) simp
  next
    case (Some i)
    note i = rindex_Some [OF Some] and end_iff = rindex_before_NUL [OF "1.prems" Some]
    from i tm have in_buf: "i + 1 < length path" "i < length path" by simp_all
    show ?thesis
    proof (cases "path ! (i + 1) = NUL")
      case True
      with end_iff have last: "Suc i = length (cstr path)" by simp
      let ?cut = "path[i := NUL]"
      have cut: "cstr ?cut = take i (cstr path)" using i in_buf by (simp add: cstr_truncate)
      have "NUL \<in> set ?cut" using in_buf by (simp add: set_update_memI)
      from "1.IH" [OF Some _ True] in_buf this obtain buf'
        where "pathstr_remove_trailing_slashes ?cut = Some buf'"
          and "cstr buf' = strip_trailing (cstr ?cut)" by auto
      then show ?thesis
        using Some in_buf True strip_trailing_at_last_slash [OF Some last]
        by (subst pathstr_remove_trailing_slashes.simps) (simp add: cut)
    next
      case False
      with end_iff i have len: "i + 1 < length (cstr path)" by simp
      then have "last (cstr path) = last (drop (Suc i) (cstr path))" by simp
      with i len have "last (cstr path) \<noteq> slash"
        by (metis Suc_eq_plus1 drop_eq_Nil last_in_set linorder_not_less)
      then show ?thesis
        using Some in_buf False
        by (subst pathstr_remove_trailing_slashes.simps) (simp add: strip_trailing_id)
    qed
  qed
qed

subsection \<open>When the rewriting loops return\<close>

text \<open>
  The shifting loop ends after one step if it copies the terminator, and never otherwise,
  because the byte it tests does not change.
\<close>

lemma shift_loop_ends:
  assumes "p + 1 < length buf" "buf ! (p + 1) = NUL"
  shows "shift_loop buf p = Some (Ret (buf[p := NUL]))"
  using assms by (simp add: shift_loop.simps)

lemma shift_loop_diverges:
  assumes "p + 1 < length buf" "buf ! (p + 1) \<noteq> NUL"
  shows "shift_loop buf p = None"
proof -
  have "\<not> (p + 1 < length buf \<and> buf ! (p + 1) \<noteq> NUL)" if ret: "shift_loop buf p = Some r" for r
  proof (rule shift_loop.raw_induct
      [where P = "\<lambda>buf p r. \<not> (p + 1 < length buf \<and> buf ! (p + 1) \<noteq> NUL)", OF _ ret])
    fix f :: "cbuf \<Rightarrow> nat \<Rightarrow> cbuf cres option" and b q r
    assume IH: "\<And>b q r. f b q = Some r \<Longrightarrow> \<not> (q + 1 < length b \<and> b ! (q + 1) \<noteq> NUL)"
      and eq: "(case rd b (q + 1) of None \<Rightarrow> Some UB
        | Some c \<Rightarrow> (case wr b q c of None \<Rightarrow> Some UB
          | Some b' \<Rightarrow> (case rd b' (q + 1) of None \<Rightarrow> Some UB
            | Some c' \<Rightarrow> if c' \<noteq> NUL then f b' q else Some (Ret b')))) = Some r"
    show "\<not> (q + 1 < length b \<and> b ! (q + 1) \<noteq> NUL)"
    proof
      assume in_b: "q + 1 < length b \<and> b ! (q + 1) \<noteq> NUL"
      let ?b = "b[q := b ! (q + 1)]"
      from in_b eq have "f ?b q = Some r" by simp
      then have "\<not> (q + 1 < length ?b \<and> ?b ! (q + 1) \<noteq> NUL)" by (rule IH)
      with in_b show False by simp
    qed
  qed
  with assms show ?thesis by (cases "shift_loop buf p") auto
qed

lemma strstr_from_0 [simp]: "strstr_from buf 0 pat = strstr (cstr buf) pat"
  by (cases "strstr (cstr buf) pat") (simp_all add: strstr_from_def)

lemma nth_terminated:
  "NUL \<notin> set s \<Longrightarrow> i < length s \<Longrightarrow> (s @ [NUL]) ! i \<noteq> NUL"
  by (metis nth_append nth_mem)

subsubsection \<open>\<open>pathstr_remove_double_slashes\<close>\<close>

lemma double_slashes_none:
  assumes "NUL \<notin> set s" "strstr s ''//'' = None"
  shows "pathstr_remove_double_slashes (s @ [NUL]) = Some (Ret (s @ [NUL]))"
  using assms by (simp add: pathstr_remove_double_slashes_def remove_double_slashes_from.simps)

lemma double_slashes_final:
  assumes "NUL \<notin> set s" "strstr s ''//'' = Some d" "d + 2 = length s"
  shows "pathstr_remove_double_slashes (s @ [NUL]) = Some (Ret (take (d + 1) s @ [NUL, NUL]))"
proof -
  from strstr_Some [OF assms(2)] assms(3) have s: "s = take d s @ ''//''"
    by (metis append_take_drop_id length_drop take_all_iff add_diff_cancel_left' eq_imp_le
        list.size(3,4) add_Suc_right add_0_right numeral_2_eq_2)
  then obtain t where t: "s = t @ ''//''" "length t = d" using assms(3)
    by (metis add_leD1 eq_imp_le length_take min_absorb2)
  have "shift_loop (s @ [NUL]) (d + 1) = Some (Ret ((s @ [NUL])[d + 1 := NUL]))"
    using t by (intro shift_loop_ends) (simp_all add: nth_append)
  moreover have "(s @ [NUL])[d + 1 := NUL] = take (d + 1) s @ [NUL, NUL]"
    using t by (simp add: list_update_append)
  moreover have "strstr_from (take (d + 1) s @ [NUL, NUL]) d ''//'' = None"
    using t by (simp add: strstr_from_def cstr_def)
  ultimately show ?thesis
    using assms(1,2)
    by (simp add: pathstr_remove_double_slashes_def remove_double_slashes_from.simps)
qed

lemma double_slashes_inner:
  assumes "NUL \<notin> set s" "strstr s ''//'' = Some d" "d + 2 \<noteq> length s"
  shows "pathstr_remove_double_slashes (s @ [NUL]) = None"
proof -
  from strstr_Some [OF assms(2)] assms(3) have d: "d + 2 < length s" by simp
  then have "shift_loop (s @ [NUL]) (d + 1) = None"
    using nth_terminated [OF assms(1) d] by (intro shift_loop_diverges) simp_all
  with assms(1,2) show ?thesis
    by (simp add: pathstr_remove_double_slashes_def remove_double_slashes_from.simps)
qed

subsubsection \<open>\<open>pathstr_dirparent_u2a\<close>\<close>

lemma replace_parents_none:
  "strstr (cstr buf) ''../'' = None \<Longrightarrow> replace_parents buf = Some (Ret buf)"
  by (simp add: replace_parents.simps)

text \<open>A \<open>../\<close> anywhere: the shifting loop copies its slash for ever.\<close>

lemma replace_parents_diverges:
  assumes "strstr (cstr buf) ''../'' = Some i" "NUL \<in> set buf"
  shows "replace_parents buf = None"
proof -
  have i: "i + 2 < length (cstr buf)" "cstr buf ! (i + 2) = slash"
    using strstr_nth [OF assms(1), of 2] by simp_all
  with cstr_terminator(1) [OF assms(2)] have len: "i + 2 < length buf" by simp
  from i have "buf ! (i + 2) = slash" by (metis cstr_prefix nth_append)
  then have "shift_loop (buf[i := slash]) (i + 1) = None"
    using len by (intro shift_loop_diverges) simp_all
  with assms(1) len show ?thesis by (simp add: replace_parents.simps)
qed

lemma replace_final_parent_none:
  "strstr (cstr buf) ''/..'' = None \<Longrightarrow> replace_final_parent buf = Some (Ret buf)"
  by (simp add: replace_final_parent.simps)

text \<open>A \<open>/..\<close> that does not end the string: the loop tests it again for ever.\<close>

lemma replace_final_parent_diverges:
  assumes "strstr (cstr buf) ''/..'' = Some i" "i + 3 < length buf" "buf ! (i + 3) \<noteq> NUL"
  shows "replace_final_parent buf = None"
proof -
  let ?P = "\<lambda>b. strstr (cstr b) ''/..'' = Some i \<and> i + 3 < length b \<and> b ! (i + 3) \<noteq> NUL"
  have "\<not> ?P buf" if ret: "replace_final_parent buf = Some r" for r
  proof (rule replace_final_parent.raw_induct [where P = "\<lambda>b r. \<not> ?P b", OF _ ret])
    fix f :: "cbuf \<Rightarrow> cbuf cres option" and b r
    assume IH: "\<And>b r. f b = Some r \<Longrightarrow> \<not> ?P b"
      and eq: "(case strstr (cstr b) ''/..'' of None \<Rightarrow> Some (Ret b)
        | Some p \<Rightarrow> (case rd b (p + 3) of None \<Rightarrow> Some UB
          | Some c \<Rightarrow> if c = NUL then
              (case wr b (p + 1) slash of None \<Rightarrow> Some UB
              | Some b1 \<Rightarrow> (case shift_loop b1 (p + 2) of None \<Rightarrow> None
                | Some r \<Rightarrow> (case r of UB \<Rightarrow> Some UB | Ret b2 \<Rightarrow> f b2)))
              else f b)) = Some r"
    show "\<not> ?P b"
    proof
      assume "?P b"
      with eq have "f b = Some r" by simp
      then have "\<not> ?P b" by (rule IH)
      with \<open>?P b\<close> show False by blast
    qed
  qed
  with assms show ?thesis by (cases "replace_final_parent buf") auto
qed

lemma replace_final_parent_final:
  assumes "cstr buf = t @ ''/..''" "strstr (cstr buf) ''/..'' = Some (length t)" "NUL \<in> set buf"
    and "strstr (t @ ''//'') ''/..'' = None"
  shows "\<exists>buf'. replace_final_parent buf = Some (Ret buf') \<and> cstr buf' = t @ ''//''"
proof -
  from assms(3) obtain r where buf: "buf = (t @ ''/..'') @ NUL # r"
    unfolding assms(1) [symmetric] cstr_def using split_at_first by fastforce
  have t: "NUL \<notin> set t" using NUL_notin_cstr [of buf] assms(1) by simp
  let ?b1 = "(t @ ''//.'') @ NUL # r"
  have "buf[length t + 1 := slash] = ?b1" by (simp add: buf list_update_append)
  moreover have "shift_loop ?b1 (length t + 2) = Some (Ret (?b1[length t + 2 := NUL]))"
    by (intro shift_loop_ends) (simp_all add: nth_append)
  moreover have "?b1[length t + 2 := NUL] = (t @ ''//'') @ NUL # NUL # r"
    by (simp add: list_update_append)
  moreover have "cstr ((t @ ''//'') @ NUL # NUL # r) = t @ ''//''"
    using t by (intro cstr_terminated) simp
  moreover have "length t + 3 < length buf" "buf ! (length t + 3) = NUL"
    by (simp_all add: buf nth_append)
  ultimately show ?thesis
    using assms(2,4) replace_final_parent_none [of "(t @ ''//'') @ NUL # NUL # r"]
    by (subst replace_final_parent.simps) simp
qed

subsubsection \<open>All of \<open>pathstr_fuse2amigados\<close>\<close>

text \<open>
  What the function computes where it returns: a final double slash loses one slash and a
  final \<open>/..\<close> becomes \<open>//\<close>; everything else is left as it is. \<open>None\<close> is the set of
  strings on which it loops.
\<close>

definition amigados_path :: "string \<Rightarrow> string option" where
  "amigados_path s =
     (case strstr s ''//'' of
        Some d \<Rightarrow> if d + 2 = length s then Some (take (d + 1) s) else None
      | None \<Rightarrow> Some s) \<bind> (\<lambda>s1.
        if strstr s1 ''../'' \<noteq> None then None
        else case strstr s1 ''/..'' of
          None \<Rightarrow> Some s1
        | Some i \<Rightarrow> if i + 3 = length s1 then Some (take i s1 @ ''//'') else None)"

lemma no_parent_after_replacement:
  assumes "strstr s ''/..'' = Some i" "i + 3 = length s"
  shows "strstr (take i s @ ''//'') ''/..'' = None"
  unfolding strstr_None_iff
proof (intro allI impI notI)
  fix j
  let ?t = "take i s @ ''//''"
  assume j: "j \<le> length ?t" and eq: "take (length ''/..'') (drop j ?t) = ''/..''"
  have j2: "j + 2 < length ?t" "?t ! (j + 2) = CHR ''.''"
    using match_nthD [OF eq, of 2] by simp_all
  then have "j + 2 < i" using j2 assms(2) by (auto simp: nth_append nth_Cons' split: if_splits)
  then have "take (length ''/..'') (drop j ?t) = take (length ''/..'') (drop j s)"
    using assms(2) by (simp add: take_drop min_def)
  from this [symmetric] eq have "take (length ''/..'') (drop j s) = ''/..''" by (rule trans)
  with strstr_first [OF assms(1), of j] \<open>j + 2 < i\<close> show False by simp
qed

lemma dirparent_u2a_result:
  assumes "NUL \<in> set buf" "cstr buf = s"
  shows "pathstr_dirparent_u2a buf =
      (if strstr s ''../'' \<noteq> None then None else replace_final_parent buf)"
  using assms replace_parents_diverges replace_parents_none
  by (cases "strstr s ''../''") (auto simp: pathstr_dirparent_u2a_def)

lemma replace_final_parent_result:
  assumes "NUL \<in> set buf" "cstr buf = s"
  shows "case strstr s ''/..'' of
      None \<Rightarrow> replace_final_parent buf = Some (Ret buf)
    | Some i \<Rightarrow> if i + 3 = length s
        then \<exists>buf'. replace_final_parent buf = Some (Ret buf') \<and> cstr buf' = take i s @ ''//''
        else replace_final_parent buf = None"
proof (cases "strstr s ''/..''")
  case None
  then show ?thesis using assms(2) by (simp add: replace_final_parent_none)
next
  case (Some i)
  note i = strstr_Some [OF Some]
  show ?thesis
  proof (cases "i + 3 = length s")
    case True
    with i have "s = take i s @ ''/..''" by (metis append_take_drop_id length_drop take_all_iff
        add_diff_cancel_left' eq_imp_le list.size(3,4) add_Suc_right add_0_right numeral_3_eq_3)
    with replace_final_parent_final [of buf "take i s"] no_parent_after_replacement [OF Some True]
      assms Some True show ?thesis by simp
  next
    case False
    with i have lt: "i + 3 < length s" by simp
    moreover from lt assms cstr_terminator(1) have "i + 3 < length buf" by fastforce
    moreover from lt have "buf ! (i + 3) \<noteq> NUL"
      using assms(2) by (metis NUL_notin_cstr cstr_prefix nth_append nth_mem)
    ultimately show ?thesis using Some False replace_final_parent_diverges assms(2) by simp
  qed
qed

lemma dirparent_u2a_amigados:
  assumes "NUL \<in> set buf" "cstr buf = s" "strstr s ''//'' = None"
  shows "case amigados_path s of
      None \<Rightarrow> pathstr_dirparent_u2a buf = None
    | Some r \<Rightarrow> \<exists>buf'. pathstr_dirparent_u2a buf = Some (Ret buf') \<and> cstr buf' = r"
  using dirparent_u2a_result [OF assms(1,2)] replace_final_parent_result [OF assms(1,2)] assms(2,3)
  by (auto simp: amigados_path_def split: option.splits if_splits)

lemma strstr_before_match:
  assumes "strstr s pat = Some d" "d + length pat = length s" "k < length s" "pat \<noteq> []"
  shows "strstr (take k s) pat = None"
  unfolding strstr_None_iff
proof (intro allI impI notI)
  fix j
  assume eq: "take (length pat) (drop j (take k s)) = pat"
  from match_nthD(1) [OF eq, of "length pat - 1"] assms(4)
  have "j + length pat \<le> k" by (cases pat) auto
  with eq have "take (length pat) (drop j s) = pat"
    by (simp add: take_drop min_def)
  moreover from \<open>j + length pat \<le> k\<close> assms(2,3) have "j < d" by simp
  ultimately show False using strstr_first [OF assms(1)] by blast
qed

theorem pathstr_fuse2amigados_result:
  assumes "NUL \<notin> set s"
  shows "case amigados_path s of
      None \<Rightarrow> pathstr_fuse2amigados (s @ [NUL]) = None
    | Some r \<Rightarrow> \<exists>buf. pathstr_fuse2amigados (s @ [NUL]) = Some (Ret buf) \<and> cstr buf = r"
proof (cases "strstr s ''//''")
  case None
  have "pathstr_fuse2amigados (s @ [NUL]) = pathstr_dirparent_u2a (s @ [NUL])"
    using double_slashes_none [OF assms None] by (simp add: pathstr_fuse2amigados_def)
  then show ?thesis
    using dirparent_u2a_amigados [OF _ _ None, of "s @ [NUL]"] assms by (simp split: option.splits)
next
  case (Some d)
  show ?thesis
  proof (cases "d + 2 = length s")
    case True
    let ?s = "take (d + 1) s"
    let ?buf = "?s @ NUL # [NUL]"
    have none: "strstr ?s ''//'' = None"
      using strstr_before_match [OF Some] True by simp
    then have eq: "amigados_path s = amigados_path ?s"
      using Some True by (simp add: amigados_path_def)
    have "cstr ?buf = ?s" using assms by (intro cstr_terminated) (auto dest: in_set_takeD)
    moreover have "pathstr_fuse2amigados (s @ [NUL]) = pathstr_dirparent_u2a ?buf"
      using double_slashes_final [OF assms Some True] by (simp add: pathstr_fuse2amigados_def)
    ultimately show ?thesis
      using dirparent_u2a_amigados [OF _ _ none, of ?buf] eq by (simp split: option.splits)
  next
    case False
    then show ?thesis
      using double_slashes_inner [OF assms Some False] Some
      by (simp add: pathstr_fuse2amigados_def amigados_path_def)
  qed
qed

text \<open>
  C14: On a terminated string \<open>pathstr_fuse2amigados\<close> either never returns, exactly where
  \<open>amigados_path\<close> is undefined, or returns the text \<open>amigados_path\<close> gives; in no case does it
  read or write outside the buffer.
\<close>

theorem fuse2amigados_outcome:
  assumes "NUL \<notin> set s"
  shows "(pathstr_fuse2amigados (s @ [NUL]) = None \<longleftrightarrow> amigados_path s = None) \<and>
    pathstr_fuse2amigados (s @ [NUL]) \<noteq> Some UB \<and>
    (\<forall>buf. pathstr_fuse2amigados (s @ [NUL]) = Some (Ret buf) \<longrightarrow> amigados_path s = Some (cstr buf))"
  using pathstr_fuse2amigados_result [OF assms] by (auto split: option.splits)

subsection \<open>On canonical paths\<close>

text \<open>Where a text with a slash in front of each component can hold the three patterns.\<close>

abbreviation occurs_at :: "string \<Rightarrow> string \<Rightarrow> nat \<Rightarrow> bool" where
  "occurs_at pat s i \<equiv> take (length pat) (drop i s) = pat"

lemma strstr_occurs: "strstr s pat \<noteq> None \<longleftrightarrow> (\<exists>i. i \<le> length s \<and> occurs_at pat s i)"
  by (simp add: strstr_None_iff)

lemma occurs_at_Cons: "occurs_at pat (x # s) (Suc i) = occurs_at pat s i"
  by simp

definition slashed :: "string list \<Rightarrow> string" where
  "slashed cs = concat (map (\<lambda>c. slash # c) cs)"

lemma slashed_simps [simp]: "slashed [] = []" "slashed (c # cs) = slash # c @ slashed cs"
  by (simp_all add: slashed_def)

lemma abspath_slashed: "cs \<noteq> [] \<Longrightarrow> abspath cs = slashed cs"
  by (simp add: abspath_def slashed_def)

lemma hd_slashed: "slashed cs = [] \<or> hd (slashed cs) = slash"
  by (cases cs) auto

lemma occurs_at_prefix:
  assumes "occurs_at (p @ q) s i"
  shows "occurs_at p s i"
proof -
  have "take (length p) (drop i s) = take (length p) (take (length (p @ q)) (drop i s))"
    by (simp add: take_take)
  also have "\<dots> = p" unfolding assms by simp
  finally show ?thesis .
qed

lemma append_match2:
  assumes "occurs_at [x, y] (c @ r) i" "r = [] \<or> hd r = slash" "i < length c" "y \<noteq> slash"
  shows "occurs_at [x, y] c i"
proof -
  from match_nthD [OF assms(1), of 1] have len: "i + 1 < length (c @ r)" and y: "(c @ r) ! (i + 1) = y"
    by simp_all
  have "i + 1 < length c"
  proof (rule ccontr)
    assume "\<not> i + 1 < length c"
    with assms(3) have "i + 1 = length c" by simp
    with y len assms(2,4) show False by (cases r) (auto simp: nth_append)
  qed
  with assms(1) show ?thesis by simp
qed

text \<open>Names that begin, or end, with two dots.\<close>

definition dots_first :: "string \<Rightarrow> bool" where
  "dots_first c \<longleftrightarrow> take 2 c = ''..''"

definition dots_last :: "string \<Rightarrow> bool" where
  "dots_last c \<longleftrightarrow> drop (length c - 2) c = ''..'' "

text \<open>
  The directories for which the rewriting loops: a component begins with two dots, or one
  that is not the last ends with two dots.
\<close>

definition dotted :: "string list \<Rightarrow> bool" where
  "dotted cs \<longleftrightarrow> list_ex dots_first cs \<or> list_ex dots_last (butlast cs)"

lemma in_slashed_cases:
  assumes "occurs_at pat (slash # c @ r) i" "i \<le> length (slash # c @ r)"
  obtains "i = 0" "take (length pat) (slash # c @ r) = pat"
  | j where "i = Suc j" "j < length c" "occurs_at pat (c @ r) j"
  | j where "i = Suc (length c + j)" "j \<le> length r" "occurs_at pat r j"
proof (cases i)
  case 0
  with assms that(1) show ?thesis by simp
next
  case (Suc j)
  show ?thesis
  proof (cases "j < length c")
    case True
    with assms Suc that(2) show ?thesis by simp
  next
    case False
    then obtain k where "j = length c + k" by (metis le_iff_add not_less)
    with assms Suc that(3) show ?thesis by simp
  qed
qed

lemma no_double_slash: "\<forall>c\<in>set cs. is_name c \<Longrightarrow> strstr (slashed cs) ''//'' = None"
proof (induction cs)
  case Nil
  then show ?case by simp
next
  case (Cons c cs)
  have c: "c \<noteq> []" "slash \<notin> set c" using Cons.prems by (auto dest: is_nameD)
  have "\<not> occurs_at ''//'' (slash # c @ slashed cs) i" if "i \<le> length (slash # c @ slashed cs)" for i
  proof
    assume "occurs_at ''//'' (slash # c @ slashed cs) i"
    from this that show False
    proof (cases rule: in_slashed_cases)
      case 1
      then show False using c by (cases c) auto
    next
      case (2 j)
      from match_nthD [OF 2(3), of 0] 2(2) have "c ! j = slash" by (simp add: nth_append)
      with c 2(2) show False by (metis nth_mem)
    next
      case (3 j)
      have "strstr (slashed cs) ''//'' = None" using Cons by simp
      with 3 show False unfolding strstr_None_iff by blast
    qed
  qed
  then show ?case unfolding slashed_simps strstr_None_iff by blast
qed

lemma parent_slash_here:
  assumes c: "c \<noteq> []" "slash \<notin> set c"
  shows "(\<exists>j<length c. occurs_at ''../'' (c @ slashed cs) j) \<longleftrightarrow> cs \<noteq> [] \<and> dots_last c"
proof
  assume "\<exists>j<length c. occurs_at ''../'' (c @ slashed cs) j"
  then obtain j where j: "j < length c" "occurs_at ''../'' (c @ slashed cs) j" by blast
  note nths = match_nthD [OF j(2), of 1] match_nthD [OF j(2), of 2]
  have "occurs_at ''..'' (c @ slashed cs) j"
    by (rule occurs_at_prefix [of _ "''/''"]) (use j(2) in \<open>simp only: append.simps\<close>)
  from append_match2 [OF this hd_slashed j(1)] have t: "occurs_at ''..'' c j" by simp
  from match_nthD(1) [OF this, of 1] have "j + 2 \<le> length c" by simp
  moreover have "\<not> j + 2 < length c"
  proof
    assume "j + 2 < length c"
    with nths(4) have "c ! (j + 2) = slash" by (simp add: nth_append)
    with c(2) \<open>j + 2 < length c\<close> show False by (metis nth_mem)
  qed
  ultimately have "j = length c - 2" using \<open>j + 2 \<le> length c\<close> by simp
  with t nths(3) show "cs \<noteq> [] \<and> dots_last c" by (auto simp: dots_last_def split: if_splits)
next
  assume *: "cs \<noteq> [] \<and> dots_last c"
  then obtain d ds where "cs = d # ds" by (cases cs) auto
  moreover from * have "length (drop (length c - 2) c) = 2" by (simp add: dots_last_def)
  then have "2 \<le> length c" by simp
  ultimately show "\<exists>j<length c. occurs_at ''../'' (c @ slashed cs) j"
    using * by (intro exI [of _ "length c - 2"]) (auto simp: dots_last_def)
qed

lemma parent_slash_Cons:
  "strstr (slashed (c # cs)) ''../'' \<noteq> None \<longleftrightarrow>
    (\<exists>j<length c. occurs_at ''../'' (c @ slashed cs) j) \<or>
    (\<exists>j\<le>length (slashed cs). occurs_at ''../'' (slashed cs) j)" (is "?l \<longleftrightarrow> ?r")
proof
  assume ?l
  then obtain i where "i \<le> length (slash # c @ slashed cs)" "occurs_at ''../'' (slash # c @ slashed cs) i"
    unfolding slashed_simps strstr_occurs by blast
  from this(2,1) show ?r by (cases rule: in_slashed_cases) auto
next
  assume ?r
  then have "\<exists>j. j \<le> length (c @ slashed cs) \<and> occurs_at ''../'' (c @ slashed cs) j"
  proof
    assume "\<exists>j\<le>length (slashed cs). occurs_at ''../'' (slashed cs) j"
    then obtain j where "j \<le> length (slashed cs)" "occurs_at ''../'' (slashed cs) j" by blast
    then show ?thesis by (intro exI [of _ "length c + j"]) simp
  next
    assume "\<exists>j<length c. occurs_at ''../'' (c @ slashed cs) j"
    then obtain j where "j < length c" "occurs_at ''../'' (c @ slashed cs) j" by blast
    then show ?thesis by (intro exI [of _ j] conjI) simp_all
  qed
  then obtain j where "j \<le> length (c @ slashed cs)" "occurs_at ''../'' (c @ slashed cs) j" by blast
  then show ?l unfolding strstr_occurs slashed_simps
    by (intro exI [of _ "Suc j"]) simp
qed

lemma parent_slash_occurs:
  assumes "\<forall>c\<in>set cs. is_name c"
  shows "strstr (slashed cs) ''../'' \<noteq> None \<longleftrightarrow> list_ex dots_last (butlast cs)"
  using assms
proof (induction cs)
  case (Cons c cs)
  then have "c \<noteq> []" "slash \<notin> set c" by (auto dest: is_nameD)
  from parent_slash_here [OF this, of cs] Cons parent_slash_Cons [of c cs] strstr_occurs [of "slashed cs" "''../''"]
  show ?case by (cases cs) auto
qed simp

text \<open>A slash and two dots: only at the beginning of a component.\<close>

lemma name_dots_first:
  assumes "is_name c" "dots_first c"
  shows "2 < length c"
proof (rule ccontr)
  assume "\<not> 2 < length c"
  then have "take 2 c = c" by simp
  with assms(2) have "c = ''..''" by (simp add: dots_first_def)
  with assms(1) show False by (simp add: is_name_def)
qed

lemma slash_parent_occurs:
  assumes "\<forall>c\<in>set cs. is_name c"
  shows "occurs_at ''/..'' (slashed cs) i \<Longrightarrow> i \<le> length (slashed cs) \<Longrightarrow>
      i + 3 < length (slashed cs) \<and> list_ex dots_first cs"
  using assms
proof (induction cs arbitrary: i)
  case Nil
  then show ?case by simp
next
  case (Cons c cs)
  have c: "is_name c" "c \<noteq> []" "slash \<notin> set c" using Cons.prems by (auto dest: is_nameD)
  from Cons.prems(1,2) have "occurs_at ''/..'' (slash # c @ slashed cs) i" "i \<le> length (slash # c @ slashed cs)"
    by simp_all
  then show ?case
  proof (cases rule: in_slashed_cases)
    case 1
    then have "occurs_at ''..'' (c @ slashed cs) 0" by simp
    from append_match2 [OF this hd_slashed] c(2) have "dots_first c"
      by (simp add: dots_first_def numeral_2_eq_2)
    with name_dots_first [OF c(1)] 1 show ?thesis by simp
  next
    case (2 j)
    from match_nthD [OF 2(3), of 0] 2(2) have "c ! j = slash" by (simp add: nth_append)
    with c 2(2) show ?thesis by (metis nth_mem)
  next
    case (3 j)
    with Cons.IH [of j] Cons.prems(3) show ?thesis by simp
  qed
qed

lemma slash_parent_occurs_ex:
  "list_ex dots_first cs \<Longrightarrow> \<exists>i \<le> length (slashed cs). occurs_at ''/..'' (slashed cs) i"
proof (induction cs)
  case Nil
  then show ?case by simp
next
  case (Cons c cs)
  show ?case
  proof (cases "dots_first c")
    case True
    then have "take 2 c = ''..''" by (simp add: dots_first_def)
    then have "c = ''..'' @ drop 2 c" by (metis append_take_drop_id)
    then have "occurs_at ''/..'' (slashed (c # cs)) 0"
      by (metis append_Cons append_Nil append_eq_conv_conj drop_0 slashed_simps(2))
    then show ?thesis by blast
  next
    case False
    with Cons obtain j where "j \<le> length (slashed cs)" "occurs_at ''/..'' (slashed cs) j" by auto
    then show ?thesis by (intro exI [of _ "Suc (length c + j)"]) simp
  qed
qed

text \<open>
  Every canonical path is left alone or never returned from, and which one depends on the
  dots alone.
\<close>

theorem amigados_path_abspath:
  assumes "\<forall>c\<in>set cs. is_name c"
  shows "amigados_path (abspath cs) = (if dotted cs then None else Some (abspath cs))"
proof (cases "cs = []")
  case True
  then show ?thesis by (simp add: amigados_path_def dotted_def)
next
  case False
  note ds = no_double_slash [OF assms] and ps = parent_slash_occurs [OF assms]
  have sp: "strstr (slashed cs) ''/..'' = None" if "\<not> list_ex dots_first cs"
    using that slash_parent_occurs [OF assms] unfolding strstr_None_iff by blast
  have sp': "\<exists>i. strstr (slashed cs) ''/..'' = Some i \<and> i + 3 \<noteq> length (slashed cs)" if f: "list_ex dots_first cs"
  proof -
    from slash_parent_occurs_ex [OF f] have "strstr (slashed cs) ''/..'' \<noteq> None"
      by (simp add: strstr_occurs del: not_None_eq)
    then obtain i where i: "strstr (slashed cs) ''/..'' = Some i" by blast
    with strstr_Some [OF i] slash_parent_occurs [OF assms, of i] show ?thesis by auto
  qed
  show ?thesis
    using ds ps sp sp' False unfolding amigados_path_def dotted_def abspath_slashed [OF False]
    by (cases "list_ex dots_first cs") auto
qed

text \<open>
  C30: On a canonical path other than the root, \<open>path_create\<close> yields the directory and the
  entry of which the path consists, whatever allocation fails meanwhile: the result is that
  pair or NULL, and NULL only when an allocation failed.
\<close>

theorem path_create_splits:
  assumes "\<forall>c\<in>set cs. is_name c" "is_name c"
  shows "fst (path_create (abspath (cs @ [c])) h) \<in> {None, Some \<lparr>dirpath = abspath cs, entryname = c\<rparr>} \<and>
    (fst (path_create (abspath (cs @ [c])) h) = None \<longrightarrow> False \<in> set (take 3 h))"
proof -
  have "fst (path_create s h) = None \<longrightarrow> False \<in> set (take 3 h)" for s
    by (auto simp: path_create_def strdup_def malloc_def numeral_3_eq_3 split: list.splits if_splits)
  then show ?thesis
    using path_create_result [of "abspath (cs @ [c])" h] assms by (auto simp: path_simps)
qed

end
