(* ===== verification/Adf_Lib.thy ===== *)
theory Adf_Lib
  imports C_Memory
begin

section \<open>The interface to ADFlib\<close>

text \<open>
  ADFlib is a separate library: none of its code is under \<open>src/\<close>, so the model does not
  define it. What \<open>adfimage.c\<close> and \<open>adffs.c\<close> use of it is collected here: the fields they
  read of its structures (the rest of a volume, which only ADFlib looks at, is the type
  parameter \<open>'d\<close>; a file handle is the type parameter \<open>'f\<close>), and a record \<open>adflib\<close> of its
  constants and functions, which every definition that calls ADFlib takes as an argument.
  Functions that may write the volume return the volume; functions that only read it do not.
  A list of directory entries is a list, the empty one being the null pointer.
\<close>

subsection \<open>Structures\<close>

record AdfEntry =
  e_type :: int
  e_name :: string
  e_sector :: int
  e_real :: int
  e_parent :: int
  e_access :: "32 word"
  e_year :: int
  e_month :: int
  e_days :: int
  e_hour :: int
  e_mins :: int
  e_secs :: int

text \<open>
  A block of a directory entry. \<open>struct AdfRootBlock\<close>, \<open>struct AdfEntryBlock\<close> and
  \<open>struct AdfLinkBlock\<close> are views of the same bytes, which the code casts into each other;
  \<open>b_raw\<close> are the bytes no view used here shows.
\<close>

record AdfBlock =
  b_access :: "32 word"
  b_secType :: int
  b_hashTable :: "int list"
  b_name :: string
  b_realName :: string
  b_realEntry :: int
  b_bmFlag :: int
  b_raw :: "char list"

record 'd AdfVolume =
  volName :: string
  curDirPtr :: int
  rootBlock :: int
  vol_readOnly :: bool
  datablockSize :: "32 word"
  firstBlock :: "32 word"
  lastBlock :: "32 word"
  volData :: 'd

record AdfDevice =
  dev_name :: string
  dev_readOnly :: bool

datatype AdfFileMode = ADF_FILE_MODE_READ | ADF_FILE_MODE_WRITE
datatype AdfAccessMode = ADF_ACCESS_MODE_READONLY | ADF_ACCESS_MODE_READWRITE

subsection \<open>Constants and functions\<close>

record adf_const =
  ADF_RC_OK :: int
  ADF_ST_ROOT :: int
  ADF_ST_DIR :: int
  ADF_ST_FILE :: int
  ADF_ST_LFILE :: int
  ADF_ST_LDIR :: int
  ADF_ST_LSOFT :: int
  ADF_ACCMASK_R :: "32 word"
  ADF_ACCMASK_W :: "32 word"
  ADF_ACCMASK_E :: "32 word"
  ADF_BM_VALID :: int

record ('d, 'f) adflib =
  K :: adf_const
  adfToRootDir :: "'d AdfVolume \<Rightarrow> 'd AdfVolume"
  adfChangeDir :: "'d AdfVolume \<Rightarrow> string \<Rightarrow> int \<times> 'd AdfVolume"
  adfGetDirEnt :: "'d AdfVolume \<Rightarrow> int \<Rightarrow> AdfEntry list"
  adfReadRootBlock :: "'d AdfVolume \<Rightarrow> int \<Rightarrow> int \<times> AdfBlock"
  adfEntBlock2Entry :: "AdfBlock \<Rightarrow> AdfEntry \<Rightarrow> int \<times> AdfEntry"
  adfReadEntryBlock :: "'d AdfVolume \<Rightarrow> int \<Rightarrow> int \<times> AdfBlock"
  adfWriteEntryBlock :: "'d AdfVolume \<Rightarrow> int \<Rightarrow> AdfBlock \<Rightarrow> int \<times> 'd AdfVolume"
  adfNameToEntryBlk :: "'d AdfVolume \<Rightarrow> int list \<Rightarrow> string \<Rightarrow> int \<times> AdfBlock"
  adfAccHasR :: "32 word \<Rightarrow> bool"
  adfAccHasW :: "32 word \<Rightarrow> bool"
  adfAccHasE :: "32 word \<Rightarrow> bool"
  adfFileOpen :: "'d AdfVolume \<Rightarrow> string \<Rightarrow> AdfFileMode \<Rightarrow> 'f option \<times> 'd AdfVolume"
  adfFileSeek :: "'d AdfVolume \<Rightarrow> 'f \<Rightarrow> 32 word \<Rightarrow> int \<times> 'f \<times> 'd AdfVolume"
  adfFileRead :: "'d AdfVolume \<Rightarrow> 'f \<Rightarrow> 32 word \<Rightarrow> char list \<times> 'f \<times> 'd AdfVolume"
  adfFileWrite :: "'d AdfVolume \<Rightarrow> 'f \<Rightarrow> char list \<Rightarrow> 32 word \<times> 'f \<times> 'd AdfVolume"
  adfFileTruncate :: "'d AdfVolume \<Rightarrow> 'f \<Rightarrow> 32 word \<Rightarrow> int \<times> 'f \<times> 'd AdfVolume"
  adfFileClose :: "'d AdfVolume \<Rightarrow> 'f option \<Rightarrow> 'd AdfVolume"
  fileHdr_byteSize :: "'f \<Rightarrow> 32 word"
  adfCreateDir :: "'d AdfVolume \<Rightarrow> int \<Rightarrow> string \<Rightarrow> int \<times> 'd AdfVolume"
  adfCreateFile :: "'d AdfVolume \<Rightarrow> int \<Rightarrow> string \<Rightarrow> int \<times> 'd AdfVolume"
  adfRemoveEntry :: "'d AdfVolume \<Rightarrow> int \<Rightarrow> string \<Rightarrow> int \<times> 'd AdfVolume"
  adfRenameEntry :: "'d AdfVolume \<Rightarrow> int \<Rightarrow> string \<Rightarrow> int \<Rightarrow> string \<Rightarrow> int \<times> 'd AdfVolume"
  adfCountFreeBlocks :: "'d AdfVolume \<Rightarrow> 32 word"

abbreviation rc_ok :: "('d, 'f) adflib \<Rightarrow> int \<Rightarrow> bool" where
  "rc_ok L rc \<equiv> rc = ADF_RC_OK (K L)"

subsection \<open>What the code relies on\<close>

text \<open>
  Hypotheses of the theorems that need them; each states documented behaviour of ADFlib.

  \<open>nav_ok\<close>: \<open>adfToRootDir\<close> makes the root block the current directory; \<open>adfChangeDir\<close>
  changes nothing but the current directory, and not even that when it fails.
\<close>

definition nav_ok :: "('d, 'f) adflib \<Rightarrow> bool" where
  "nav_ok L \<longleftrightarrow>
     (\<forall>v. adfToRootDir L v = v\<lparr>curDirPtr := rootBlock v\<rparr>) \<and>
     (\<forall>v d. \<exists>s. snd (adfChangeDir L v d) = v\<lparr>curDirPtr := s\<rparr>) \<and>
     (\<forall>v d. \<not> rc_ok L (fst (adfChangeDir L v d)) \<longrightarrow> snd (adfChangeDir L v d) = v)"

text \<open>
  \<open>const_ok\<close>: success is zero, the entry types differ, and the access bits are three
  different single bits, which the \<open>adfAccHas\<close> macros test.
\<close>

definition const_ok :: "('d, 'f) adflib \<Rightarrow> bool" where
  "const_ok L \<longleftrightarrow>
     ADF_RC_OK (K L) = 0 \<and>
     distinct [ADF_ST_ROOT (K L), ADF_ST_DIR (K L), ADF_ST_FILE (K L), ADF_ST_LFILE (K L),
       ADF_ST_LDIR (K L), ADF_ST_LSOFT (K L)]"

definition access_ok :: "('d, 'f) adflib \<Rightarrow> bool" where
  "access_ok L \<longleftrightarrow>
     ADF_ACCMASK_R (K L) \<noteq> 0 \<and> ADF_ACCMASK_W (K L) \<noteq> 0 \<and> ADF_ACCMASK_E (K L) \<noteq> 0 \<and>
     and (ADF_ACCMASK_R (K L)) (ADF_ACCMASK_W (K L)) = 0 \<and>
     and (ADF_ACCMASK_R (K L)) (ADF_ACCMASK_E (K L)) = 0 \<and>
     and (ADF_ACCMASK_W (K L)) (ADF_ACCMASK_E (K L)) = 0 \<and>
     (\<forall>a. adfAccHasR L a = (and a (ADF_ACCMASK_R (K L)) \<noteq> 0)) \<and>
     (\<forall>a. adfAccHasW L a = (and a (ADF_ACCMASK_W (K L)) \<noteq> 0)) \<and>
     (\<forall>a. adfAccHasE L a = (and a (ADF_ACCMASK_E (K L)) \<noteq> 0))"

text \<open>Two volumes that differ in the current directory only.\<close>

definition same_volume :: "'d AdfVolume \<Rightarrow> 'd AdfVolume \<Rightarrow> bool" where
  "same_volume v w \<longleftrightarrow> v\<lparr>curDirPtr := 0\<rparr> = w\<lparr>curDirPtr := 0\<rparr>"

lemma same_volume_refl [simp]: "same_volume v v"
  by (simp add: same_volume_def)

lemma same_volume_sym: "same_volume v w \<Longrightarrow> same_volume w v"
  by (simp add: same_volume_def)

lemma same_volume_trans [trans]: "same_volume u v \<Longrightarrow> same_volume v w \<Longrightarrow> same_volume u w"
  by (simp add: same_volume_def)

lemma same_volume_curDir [simp]: "same_volume v (v\<lparr>curDirPtr := s\<rparr>)"
  by (simp add: same_volume_def)

lemma same_volume_root:
  "nav_ok L \<Longrightarrow> same_volume v w \<Longrightarrow> adfToRootDir L v = adfToRootDir L w"
  by (cases v; cases w) (simp add: nav_ok_def same_volume_def)

lemma adfToRootDir_same [simp]: "nav_ok L \<Longrightarrow> same_volume v (adfToRootDir L v)"
  by (simp add: nav_ok_def)

lemma adfToRootDir_idem [simp]: "nav_ok L \<Longrightarrow> adfToRootDir L (adfToRootDir L v) = adfToRootDir L v"
  by (simp add: nav_ok_def)

lemma adfChangeDir_same: "nav_ok L \<Longrightarrow> adfChangeDir L v d = (rc, v') \<Longrightarrow> same_volume v v'"
  by (metis nav_ok_def same_volume_curDir snd_conv)

lemma adfChangeDir_fail: "nav_ok L \<Longrightarrow> adfChangeDir L v d = (rc, v') \<Longrightarrow> \<not> rc_ok L rc \<Longrightarrow> v' = v"
  by (metis nav_ok_def fst_conv snd_conv)

subsection \<open>Walking down directories\<close>

text \<open>
  The specification of a directory change: enter the components one after the other, stop at
  the first that fails; the result is whether all were entered, the volume, and the
  components that were entered.
\<close>

fun adf_walk ::
  "('d, 'f) adflib \<Rightarrow> 'd AdfVolume \<Rightarrow> string list \<Rightarrow> bool \<times> 'd AdfVolume \<times> string list" where
  "adf_walk L v [] = (True, v, [])"
| "adf_walk L v (c # cs) =
     (case adfChangeDir L v c of (rc, v') \<Rightarrow>
        if rc_ok L rc then (case adf_walk L v' cs of (b, w, entered) \<Rightarrow> (b, w, c # entered))
        else (False, v', []))"

lemma adf_walk_entered:
  "adf_walk L v cs = (b, w, entered) \<Longrightarrow>
    (b \<longrightarrow> entered = cs) \<and> (\<exists>rest. cs = entered @ rest \<and> (\<not> b \<longrightarrow> rest \<noteq> []))"
  by (induction L v cs arbitrary: b w entered rule: adf_walk.induct)
    (fastforce split: prod.splits if_splits)+

lemma adf_walk_same: "nav_ok L \<Longrightarrow> adf_walk L v cs = (b, w, entered) \<Longrightarrow> same_volume v w"
  by (induction L v cs arbitrary: b w entered rule: adf_walk.induct)
    (auto split: prod.splits if_splits intro: same_volume_trans dest: adfChangeDir_same)

text \<open>Walking the entered components alone reaches the same place, with success.\<close>

lemma adf_walk_entered_again:
  "nav_ok L \<Longrightarrow> adf_walk L v cs = (b, w, entered) \<Longrightarrow> adf_walk L v entered = (True, w, entered)"
  by (induction L v cs arbitrary: b w entered rule: adf_walk.induct)
    (auto split: prod.splits if_splits dest: adfChangeDir_fail)

lemma adf_walk_append:
  "adf_walk L v (cs @ ds) =
    (case adf_walk L v cs of (b, w, entered) \<Rightarrow>
       if b then (case adf_walk L w ds of (b', w', entered') \<Rightarrow> (b', w', entered @ entered'))
       else (False, w, entered))"
  by (induction L v cs rule: adf_walk.induct) (auto split: prod.splits)

end
