(* ===== verification/Adf_Chdir.thy ===== *)
theory Adf_Chdir
  imports Path_Util Adf_Lib
begin

section \<open>The mounted image and its working directory: \<open>src/src/adfimage.c\<close>\<close>

text \<open>
  The state \<open>adfimage_t\<close> and the functions that move its working directory. The code keeps
  that directory twice: ADFlib's \<open>curDirPtr\<close> in the volume, and the path \<open>cwd\<close>, a buffer of
  1024 bytes. The lemmas relate the two: \<open>in_sync\<close> says that walking \<open>cwd\<close> down from the
  root leads to \<open>curDirPtr\<close>.
\<close>

definition ADFIMAGE_MAX_PATH :: nat where
  "ADFIMAGE_MAX_PATH = 1024"

text \<open>
  \<open>adfimage_t\<close>; pointers that may be null are options, and of \<open>fstat\<close> only the block size is
  ever read. \<open>heap\<close> is no field of the C structure: it is the outcome of the next
  allocations (\<open>C_Memory\<close>).
\<close>

record 'd adfimage =
  filename :: string
  dev :: "AdfDevice option"
  vol :: "'d AdfVolume option"
  fstat_blksize :: int
  cwd :: string
  heap :: heap

text \<open>Allocation, threaded through the image.\<close>

definition dup :: "string \<Rightarrow> 'd adfimage \<Rightarrow> string option \<times> 'd adfimage" where
  "dup s im = (case strdup s (heap im) of (r, h) \<Rightarrow> (r, im\<lparr>heap := h\<rparr>))"

definition new_path :: "string \<Rightarrow> 'd adfimage \<Rightarrow> path_t option \<times> 'd adfimage" where
  "new_path s im = (case path_create s (heap im) of (r, h) \<Rightarrow> (r, im\<lparr>heap := h\<rparr>))"

text \<open>\<open>adfToRootDir ( vol )\<close> on the image's volume.\<close>

definition to_root :: "('d, 'f) adflib \<Rightarrow> 'd adfimage \<Rightarrow> 'd adfimage option" where
  "to_root L im = do { v \<leftarrow> vol im; Some (im\<lparr>vol := Some (adfToRootDir L v)\<rparr>) }"

definition adfimage_getcwd :: "'d adfimage \<Rightarrow> string" where
  "adfimage_getcwd im = cwd im"

text \<open>
  \<open>append_dir\<close>: two \<open>strcat\<close>s onto \<open>cwd\<close>, without a check; undefined if the text and its
  terminator do not fit.
\<close>

definition append_dir :: "string \<Rightarrow> 'd adfimage \<Rightarrow> 'd adfimage option" where
  "append_dir dir im =
     (let c = (if cwd im \<noteq> ''/'' then cwd im @ ''/'' else cwd im) @ dir in
      if length c < ADFIMAGE_MAX_PATH then Some (im\<lparr>cwd := c\<rparr>) else None)"

text \<open>One step of \<open>adfimage_chdir\<close>: enter \<open>dir\<close>, and if that works record it in \<open>cwd\<close>.\<close>

definition change_dir ::
  "('d, 'f) adflib \<Rightarrow> string \<Rightarrow> 'd adfimage \<Rightarrow> (bool \<times> 'd adfimage) option" where
  "change_dir L dir im = do {
     v \<leftarrow> vol im;
     let (rc, v') = adfChangeDir L v dir;
     if \<not> rc_ok L rc then Some (False, im\<lparr>vol := Some v'\<rparr>)
     else do {
       im' \<leftarrow> append_dir dir (im\<lparr>vol := Some v'\<rparr>);
       Some (True, im')
     }
   }"

text \<open>The loop over the components of the duplicated path.\<close>

function chdir_loop ::
  "('d, 'f) adflib \<Rightarrow> string \<Rightarrow> 'd adfimage \<Rightarrow> (bool \<times> 'd adfimage) option" where
  "chdir_loop L dir im =
     (case strchr_cut dir slash of
        None \<Rightarrow> change_dir L dir im
      | Some (d, rest) \<Rightarrow> do {
          (ok, im') \<leftarrow> change_dir L d im;
          if ok then chdir_loop L rest im' else Some (False, im')
        })"
  by pat_completeness auto
termination
  by (relation "measure (\<lambda>(L, dir, im). length dir)")
    (auto simp: strchr_cut_def split: if_splits dest: length_tl_dropWhile_less)

declare chdir_loop.simps [simp del]

definition adfimage_chdir ::
  "('d, 'f) adflib \<Rightarrow> string \<Rightarrow> 'd adfimage \<Rightarrow> (bool \<times> 'd adfimage) option" where
  "adfimage_chdir L path im =
     (case vol im of
        None \<Rightarrow> Some (False, im)
      | Some v \<Rightarrow>
          if length path < 1 then Some (False, im)
          else
            let (rel, im1) =
              (if hd path = slash
               then (pathstr_get_relative path,
                     im\<lparr>vol := Some (adfToRootDir L v), cwd := ''/''\<rparr>)
               else (path, im))
            in if rel = [] \<or> rel = ''.'' then Some (True, im1)
               else case dup rel im1 of
                 (None, _) \<Rightarrow> None
               | (Some dir_path, im2) \<Rightarrow> chdir_loop L dir_path im2)"

subsection \<open>What an operation on the image never touches\<close>

text \<open>
  \<open>same_mount\<close>: the same file, device and file status, and a volume if there was one. Every
  operation of \<open>adfimage.c\<close> except closing keeps it: \<open>image_op\<close> is the contract the FUSE
  layer relies on, and its lemma is how the contract passes through a sequence of calls.
\<close>

definition same_mount :: "'d adfimage \<Rightarrow> 'd adfimage \<Rightarrow> bool" where
  "same_mount im im' \<longleftrightarrow>
     filename im' = filename im \<and> dev im' = dev im \<and> fstat_blksize im' = fstat_blksize im \<and>
     (vol im' = None \<longleftrightarrow> vol im = None) \<and> (heap im = [] \<longrightarrow> heap im' = [])"

lemma same_mount_refl [simp]: "same_mount im im"
  by (simp add: same_mount_def)

lemma same_mount_trans [trans]: "same_mount a b \<Longrightarrow> same_mount b c \<Longrightarrow> same_mount a c"
  by (auto simp: same_mount_def)

lemma same_mount_update [simp, frame_simps]:
  "vol im \<noteq> None \<Longrightarrow> same_mount im (im\<lparr>vol := Some v\<rparr>)"
  "same_mount im (im\<lparr>cwd := c\<rparr>)"
  "vol im \<noteq> None \<Longrightarrow> same_mount im (im\<lparr>vol := Some v, cwd := c\<rparr>)"
  by (simp_all add: same_mount_def)

locale image_op =
  fixes op :: "'d adfimage \<Rightarrow> ('r \<times> 'd adfimage) option"
  assumes keeps_mount: "op im = Some (r, im') \<Longrightarrow> same_mount im im'"
begin

text \<open>A second operation after the first, chosen by the first one's result.\<close>

lemma then_op:
  assumes "\<And>r im r' im'. next_op r im = Some (r', im') \<Longrightarrow> same_mount im im'"
  shows "op im \<bind> (\<lambda>(r, im1). next_op r im1) = Some (r', im') \<Longrightarrow> same_mount im im'"
  using assms keeps_mount by (fastforce simp: bind_pair_Some_iff intro: same_mount_trans)

text \<open>Any number of repetitions.\<close>

lemma iterate_op:
  "((\<lambda>s. map_option snd (op (the s))) ^^ n) (Some im) = Some im' \<Longrightarrow>
   (\<And>k. k < n \<Longrightarrow> ((\<lambda>s. map_option snd (op (the s))) ^^ k) (Some im) \<noteq> None) \<Longrightarrow>
   same_mount im im'"
proof (induction n arbitrary: im')
  case 0
  then show ?case by simp
next
  case (Suc n)
  then obtain im1 where im1: "((\<lambda>s. map_option snd (op (the s))) ^^ n) (Some im) = Some im1"
    by (metis lessI option.exhaust)
  with Suc.prems(1) obtain r where "op im1 = Some (r, im')" by auto
  with keeps_mount Suc.IH [OF im1] Suc.prems(2) show ?case by (blast intro: same_mount_trans less_SucI)
qed

end

lemma dup_frame: "dup s im = (r, im') \<Longrightarrow> same_mount im im' \<and> vol im' = vol im \<and> cwd im' = cwd im"
  by (auto simp: dup_def strdup_def malloc_def same_mount_def split: list.splits prod.splits)

lemma new_path_frame:
  "new_path s im = (r, im') \<Longrightarrow> same_mount im im' \<and> vol im' = vol im \<and> cwd im' = cwd im"
  by (auto simp: new_path_def path_create_def strdup_def malloc_def same_mount_def
      split: list.splits prod.splits if_splits)

lemma dup_ok [simp]: "heap im = [] \<Longrightarrow> dup s im = (Some s, im)"
  by (simp add: dup_def)

lemma new_path_ok [simp]:
  "heap im = [] \<Longrightarrow> new_path s im = (Some \<lparr>dirpath = dirname s, entryname = basename s\<rparr>, im)"
  by (simp add: new_path_def)

interpretation append_dir: image_op "\<lambda>im. map_option (Pair ()) (append_dir d im)" for d
  by unfold_locales (auto simp: append_dir_def Let_def split: if_splits)

lemma change_dir_Some:
  "change_dir L d im = Some (r, im') \<longleftrightarrow>
    (\<exists>v rc v'. vol im = Some v \<and> adfChangeDir L v d = (rc, v') \<and>
      (if rc_ok L rc then r \<and> append_dir d (im\<lparr>vol := Some v'\<rparr>) = Some im'
       else \<not> r \<and> im' = im\<lparr>vol := Some v'\<rparr>))"
  by (cases "vol im") (auto simp: change_dir_def bind_Some_iff split: prod.split)

lemma append_dir_Some:
  "append_dir d im = Some im' \<longleftrightarrow>
    (let c = (if cwd im \<noteq> ''/'' then cwd im @ ''/'' else cwd im) @ d in
      length c < ADFIMAGE_MAX_PATH \<and> im' = im\<lparr>cwd := c\<rparr>)"
  by (auto simp: append_dir_def Let_def)

lemma change_dir_same_mount: "change_dir L d im = Some (r, im') \<Longrightarrow> same_mount im im'"
  by (auto simp: change_dir_Some append_dir_Some Let_def same_mount_def split: if_split_asm)

interpretation change_dir: image_op "change_dir L d" for L :: "('d, 'f) adflib" and d
  by unfold_locales (rule change_dir_same_mount)

lemma chdir_loop_same_mount: "chdir_loop L dir im = Some (r, im') \<Longrightarrow> same_mount im im'"
proof (induction L dir im arbitrary: r im' rule: chdir_loop.induct)
  case (1 L dir im)
  show ?case
  proof (cases "strchr_cut dir slash")
    case None
    with "1.prems" show ?thesis by (simp add: chdir_loop.simps change_dir.keeps_mount)
  next
    case (Some p)
    obtain d rest where p: "p = (d, rest)" by (cases p)
    from "1.prems" Some p obtain ok im1 where step: "change_dir L d im = Some (ok, im1)"
      and rest: "(if ok then chdir_loop L rest im1 else Some (False, im1)) = Some (r, im')"
      by (auto simp: chdir_loop.simps [of L dir] bind_pair_Some_iff)
    from rest "1.IH" [OF Some p [symmetric] step refl] have "same_mount im1 im'"
      by (auto split: if_splits)
    with change_dir.keeps_mount [OF step] show ?thesis by (rule same_mount_trans)
  qed
qed

lemma adfimage_chdir_same_mount:
  assumes "adfimage_chdir L path im = Some (r, im')"
  shows "same_mount im im'"
proof (cases "vol im")
  case None
  with assms show ?thesis by (simp add: adfimage_chdir_def)
next
  case (Some v)
  have loop: "same_mount im im'"
    if "same_mount im im1"
      and "(case dup rel im1 of (None, _) \<Rightarrow> None | (Some dir, im2) \<Rightarrow> chdir_loop L dir im2) = Some (r, im')"
    for rel im1
    using that
    by (auto split: prod.split_asm option.split_asm dest!: dup_frame chdir_loop_same_mount
        intro: same_mount_trans)
  from assms Some show ?thesis
    by (auto simp: adfimage_chdir_def Let_def split: if_split_asm elim!: loop [rotated])
qed

interpretation adfimage_chdir: image_op "adfimage_chdir L path" for L :: "('d, 'f) adflib" and path
  by unfold_locales (rule adfimage_chdir_same_mount)

lemma to_root_same_mount: "to_root L im = Some im' \<Longrightarrow> same_mount im im'"
  by (auto simp: to_root_def bind_Some_iff)

subsection \<open>\<open>adfimage_chdir\<close> walks the path\<close>

abbreviation names :: "string list \<Rightarrow> bool" where
  "names cs \<equiv> \<forall>c\<in>set cs. is_name c"

lemma abspath_eq_root [simp]: "names cs \<Longrightarrow> abspath cs = ''/'' \<longleftrightarrow> cs = []"
  by (cases cs) (auto simp: abspath_def dest: is_nameD)

lemma strchr_cut_relpath:
  assumes "is_name c"
  shows "strchr_cut (relpath (c # cs)) slash = (if cs = [] then None else Some (c, relpath cs))"
  using is_nameD [OF assms] by (auto simp: strchr_cut_def relpath_Cons)

lemma hd_relpath:
  assumes "names cs" "cs \<noteq> []"
  shows "hd (relpath cs) \<noteq> slash"
proof (cases cs)
  case (Cons c cs')
  with assms have "c \<noteq> []" "slash \<notin> set c" by (simp_all add: is_nameD)
  with Cons show ?thesis by (cases c) (auto simp: relpath_Cons)
qed (use assms in simp)

lemma pathstr_get_relative_abspath [simp]: "names cs \<Longrightarrow> pathstr_get_relative (abspath cs) = relpath cs"
  using hd_relpath [of cs]
  by (cases "cs = []")
    (auto simp: pathstr_get_relative_def abspath_Cons_relpath intro!: dropWhile_eq_hd)

lemma relpath_special:
  assumes "names cs" "cs \<noteq> []"
  shows "relpath cs \<noteq> []" "relpath cs \<noteq> ''.''"
  using assms is_nameD [of "hd cs"]
  by (cases cs; auto simp: relpath_Cons Cons_eq_append_conv append_eq_Cons_conv)+

lemma append_dir_abspath:
  assumes "cwd im = abspath base" "names base"
  shows "append_dir d im =
    (if length (abspath (base @ [d])) < ADFIMAGE_MAX_PATH then Some (im\<lparr>cwd := abspath (base @ [d])\<rparr>)
     else None)"
  using assms by (auto simp: append_dir_def Let_def abspath_snoc)

text \<open>
  The loop is \<open>adf_walk\<close>, with \<open>cwd\<close> following: it holds the components entered so far, also
  when a later one fails. It is undefined exactly when that text outgrows the buffer.
\<close>

lemma chdir_loop_walk:
  assumes "names (base @ cs)" "cs \<noteq> []" "vol im = Some v" "cwd im = abspath base"
    and "length (cwd im) < ADFIMAGE_MAX_PATH"
  shows "chdir_loop L (relpath cs) im =
    (case adf_walk L v cs of (b, w, entered) \<Rightarrow>
       if length (abspath (base @ entered)) < ADFIMAGE_MAX_PATH
       then Some (b, im\<lparr>vol := Some w, cwd := abspath (base @ entered)\<rparr>) else None)"
  using assms
proof (induction cs arbitrary: base im v)
  case Nil
  then show ?case by simp
next
  case (Cons c cs)
  obtain rc v' where cd: "adfChangeDir L v c = (rc, v')" by (cases "adfChangeDir L v c")
  have names: "is_name c" "names base" "names ((base @ [c]) @ cs)" using Cons.prems(1) by auto
  let ?fits = "length (abspath (base @ [c])) < ADFIMAGE_MAX_PATH"
  let ?im1 = "im\<lparr>vol := Some v', cwd := abspath (base @ [c])\<rparr>"
  have step: "change_dir L c im =
    (if \<not> rc_ok L rc then Some (False, im\<lparr>vol := Some v'\<rparr>)
     else if ?fits then Some (True, ?im1) else None)"
    using Cons.prems cd names by (simp add: change_dir_def append_dir_abspath)
  have unchanged: "im\<lparr>vol := Some v'\<rparr> = im\<lparr>vol := Some v', cwd := abspath base\<rparr>"
    using Cons.prems(4) by simp
  show ?case
  proof (cases "cs = []")
    case True
    then show ?thesis
      using step cd Cons.prems(4,5) unchanged strchr_cut_relpath [OF names(1), of cs]
      by (simp add: chdir_loop.simps)
  next
    case False
    have cut: "strchr_cut (relpath (c # cs)) slash = Some (c, relpath cs)"
      using strchr_cut_relpath [OF names(1), of cs] False by simp
    show ?thesis
    proof (cases "rc_ok L rc \<and> ?fits")
      case True
      with step cut have "chdir_loop L (relpath (c # cs)) im = chdir_loop L (relpath cs) ?im1"
        by (simp add: chdir_loop.simps [of L "relpath (c # cs)"])
      with Cons.IH [OF names(3) False, of ?im1 v'] True cd show ?thesis
        by (simp split: prod.split)
    next
      case no: False
      show ?thesis
      proof (cases "rc_ok L rc")
        case False
        with step cut cd Cons.prems(4,5) unchanged show ?thesis
          by (simp add: chdir_loop.simps [of L "relpath (c # cs)"])
      next
        case True
        with no have unfit: "\<not> ?fits" by simp
        have "\<not> length (abspath (base @ c # e)) < ADFIMAGE_MAX_PATH" for e
          using length_abspath_append [of "base @ [c]" e] unfit by simp
        moreover obtain b w e where "adf_walk L v' cs = (b, w, e)" by (cases "adf_walk L v' cs")
        ultimately show ?thesis using step cut cd True unfit
          by (simp add: chdir_loop.simps [of L "relpath (c # cs)"])
      qed
    qed
  qed
qed

lemma root_fits [simp]: "length (abspath []) < ADFIMAGE_MAX_PATH"
  by (simp add: ADFIMAGE_MAX_PATH_def)

theorem adfimage_chdir_absolute:
  assumes "names cs" "vol im = Some v" "heap im = []"
  shows "adfimage_chdir L (abspath cs) im =
    (case adf_walk L (adfToRootDir L v) cs of (b, w, entered) \<Rightarrow>
       if length (abspath entered) < ADFIMAGE_MAX_PATH
       then Some (b, im\<lparr>vol := Some w, cwd := abspath entered\<rparr>) else None)"
proof (cases "cs = []")
  case True
  then show ?thesis
    using assms by (simp add: adfimage_chdir_def pathstr_get_relative_def ADFIMAGE_MAX_PATH_def)
next
  case False
  let ?im1 = "im\<lparr>vol := Some (adfToRootDir L v), cwd := ''/''\<rparr>"
  have "adfimage_chdir L (abspath cs) im = chdir_loop L (relpath cs) ?im1"
    using assms relpath_special [OF assms(1) False]
    by (simp add: adfimage_chdir_def Suc_le_eq)
  also have "\<dots> = (case adf_walk L (adfToRootDir L v) cs of (b, w, entered) \<Rightarrow>
       if length (abspath entered) < ADFIMAGE_MAX_PATH
       then Some (b, im\<lparr>vol := Some w, cwd := abspath entered\<rparr>) else None)"
    using chdir_loop_walk [of "[]" cs ?im1 "adfToRootDir L v" L] assms(1) False
    by (simp add: ADFIMAGE_MAX_PATH_def split: prod.split)
  finally show ?thesis .
qed

lemma adfimage_chdir_relative:
  assumes "names (base @ cs)" "cs \<noteq> []" "vol im = Some v" "heap im = []" "cwd im = abspath base"
    and "length (cwd im) < ADFIMAGE_MAX_PATH"
  shows "adfimage_chdir L (relpath cs) im =
    (case adf_walk L v cs of (b, w, entered) \<Rightarrow>
       if length (abspath (base @ entered)) < ADFIMAGE_MAX_PATH
       then Some (b, im\<lparr>vol := Some w, cwd := abspath (base @ entered)\<rparr>) else None)"
proof -
  have cs: "names cs" using assms(1) by simp
  have "adfimage_chdir L (relpath cs) im = chdir_loop L (relpath cs) im"
    using assms relpath_special [OF cs assms(2)] hd_relpath [OF cs assms(2)]
    by (simp add: adfimage_chdir_def Suc_le_eq)
  with chdir_loop_walk [OF assms(1-3,5,6)] show ?thesis by simp
qed

lemma adfimage_chdir_dot:
  "vol im = Some v \<Longrightarrow> adfimage_chdir L ''.'' im = Some (True, im)"
  by (simp add: adfimage_chdir_def)

subsection \<open>The two working directories agree\<close>

definition in_sync :: "('d, 'f) adflib \<Rightarrow> 'd adfimage \<Rightarrow> bool" where
  "in_sync L im \<longleftrightarrow>
     (\<exists>v cs. vol im = Some v \<and> names cs \<and> cwd im = abspath cs \<and>
        length (cwd im) < ADFIMAGE_MAX_PATH \<and> adf_walk L (adfToRootDir L v) cs = (True, v, cs))"

lemma in_syncI:
  "vol im = Some v \<Longrightarrow> names cs \<Longrightarrow> cwd im = abspath cs \<Longrightarrow> length (cwd im) < ADFIMAGE_MAX_PATH \<Longrightarrow>
   adf_walk L (adfToRootDir L v) cs = (True, v, cs) \<Longrightarrow> in_sync L im"
  by (auto simp: in_sync_def)

lemma length_abspath_entered:
  "adf_walk L v cs = (b, w, e) \<Longrightarrow> length (abspath e) \<le> length (abspath cs)"
  by (auto dest!: adf_walk_entered intro: length_abspath_append)

lemma names_entered: "adf_walk L v cs = (b, w, e) \<Longrightarrow> names cs \<Longrightarrow> names e"
  by (auto dest!: adf_walk_entered)

text \<open>
  A change to an absolute path leaves them in agreement whether it succeeds or stops half
  way; a change to a relative path keeps them in agreement.
\<close>

lemma chdir_absolute_in_sync:
  assumes "nav_ok L" "names cs" "vol im = Some v" "heap im = []"
    and "adfimage_chdir L (abspath cs) im = Some (b, im')"
  shows "in_sync L im'"
proof -
  obtain b' w e where walk: "adf_walk L (adfToRootDir L v) cs = (b', w, e)"
    by (cases "adf_walk L (adfToRootDir L v) cs")
  have "adfToRootDir L w = adfToRootDir L v"
    using same_volume_root [OF assms(1) adf_walk_same [OF assms(1) walk]] assms(1) by simp
  moreover have "im' = im\<lparr>vol := Some w, cwd := abspath e\<rparr>" "length (abspath e) < ADFIMAGE_MAX_PATH"
    using walk assms(5) adfimage_chdir_absolute [OF assms(2-4), of L] by (auto split: if_split_asm)
  ultimately show ?thesis
    using adf_walk_entered_again [OF assms(1) walk] names_entered [OF walk assms(2)]
    by (intro in_syncI [of _ w e]) simp_all
qed

lemma chdir_relative_in_sync:
  assumes "nav_ok L" "names cs" "cs \<noteq> []" "in_sync L im" "heap im = []"
    and "adfimage_chdir L (relpath cs) im = Some (b, im')"
  shows "in_sync L im'"
proof -
  obtain v base where im: "vol im = Some v" "names base" "cwd im = abspath base"
      "length (cwd im) < ADFIMAGE_MAX_PATH" "adf_walk L (adfToRootDir L v) base = (True, v, base)"
    using assms(4) by (auto simp: in_sync_def)
  obtain b' w e where walk: "adf_walk L v cs = (b', w, e)" by (cases "adf_walk L v cs")
  have "adfToRootDir L w = adfToRootDir L v"
    using same_volume_root [OF assms(1) adf_walk_same [OF assms(1) walk]] by simp
  moreover have "adf_walk L (adfToRootDir L v) (base @ e) = (True, w, base @ e)"
    using im(5) adf_walk_entered_again [OF assms(1) walk] by (simp add: adf_walk_append)
  moreover have "names (base @ cs)" using im(2) assms(2) by auto
  then have "im' = im\<lparr>vol := Some w, cwd := abspath (base @ e)\<rparr>"
      "length (abspath (base @ e)) < ADFIMAGE_MAX_PATH"
    using adfimage_chdir_relative [of base cs im v L] im assms(3,5,6) walk by (auto split: if_split_asm)
  moreover have "names (base @ e)" using im(2) names_entered [OF walk assms(2)] by auto
  ultimately show ?thesis by (intro in_syncI [of _ w "base @ e"]) simp_all
qed

text \<open>
  Going back: on the same volume, a change to the \<open>cwd\<close> of an earlier state that was in
  agreement restores that state's two directories exactly.
\<close>

lemma chdir_back:
  assumes "nav_ok L" "in_sync L im" "vol im = Some v" "vol im' = Some w" "same_volume v w" "heap im' = []"
  shows "adfimage_chdir L (cwd im) im' = Some (True, im'\<lparr>vol := Some v, cwd := cwd im\<rparr>)"
proof -
  obtain cs where im: "names cs" "cwd im = abspath cs" "length (cwd im) < ADFIMAGE_MAX_PATH"
      "adf_walk L (adfToRootDir L v) cs = (True, v, cs)"
    using assms(2,3) by (auto simp: in_sync_def)
  have "adfToRootDir L w = adfToRootDir L v"
    using same_volume_root [OF assms(1,5)] by simp
  with adfimage_chdir_absolute [OF im(1) assms(4,6), of L] im show ?thesis by simp
qed

text \<open>
  When the two do not agree, which is so after a look-up in a subdirectory, a function that comes
  back changes to \<open>cwd\<close> all the same: \<open>homed\<close> is the image after that change. It is the image
  itself if the two agree, and they agree in it. All it needs is that \<open>cwd\<close> is some canonical
  path that fits its buffer (\<open>cwd_ok\<close>).
\<close>

definition cwd_ok :: "'d adfimage \<Rightarrow> bool" where
  "cwd_ok im \<longleftrightarrow> (\<exists>ds. names ds \<and> cwd im = abspath ds \<and> length (cwd im) < ADFIMAGE_MAX_PATH)"

definition homed :: "('d, 'f) adflib \<Rightarrow> 'd adfimage \<Rightarrow> 'd adfimage" where
  "homed L im = (case adfimage_chdir L (cwd im) im of None \<Rightarrow> im | Some (_, im') \<Rightarrow> im')"

lemma cwd_okI: "names ds \<Longrightarrow> cwd im = abspath ds \<Longrightarrow> length (cwd im) < ADFIMAGE_MAX_PATH \<Longrightarrow> cwd_ok im"
  by (auto simp: cwd_ok_def)

lemma cwd_okE:
  assumes "cwd_ok im"
  obtains ds where "names ds" "cwd im = abspath ds" "length (abspath ds) < ADFIMAGE_MAX_PATH"
  using assms by (auto simp: cwd_ok_def)

lemma cwd_ok_vol [simp]: "cwd_ok (im\<lparr>vol := v\<rparr>) = cwd_ok im"
  by (simp add: cwd_ok_def)

lemma in_sync_cwd_ok: "in_sync L im \<Longrightarrow> cwd_ok im"
  by (auto simp: in_sync_def cwd_ok_def)

lemma homed_walk:
  assumes "names ds" "cwd im = abspath ds" "length (abspath ds) < ADFIMAGE_MAX_PATH" "vol im = Some v" "heap im = []"
    and "adf_walk L (adfToRootDir L v) ds = (b, w, e)"
  shows "homed L im = im\<lparr>vol := Some w, cwd := abspath e\<rparr>"
  using adfimage_chdir_absolute [OF assms(1,4,5), of L] assms(2,3,6) length_abspath_entered [OF assms(6)]
  by (simp add: homed_def)

lemma homed_in_sync [simp]:
  assumes "nav_ok L" "cwd_ok im" "vol im = Some v" "heap im = []"
  shows "in_sync L (homed L im)"
proof -
  from assms(2) obtain ds where ds: "names ds" "cwd im = abspath ds" "length (abspath ds) < ADFIMAGE_MAX_PATH"
    by (rule cwd_okE)
  obtain b w e where walk: "adf_walk L (adfToRootDir L v) ds = (b, w, e)"
    by (cases "adf_walk L (adfToRootDir L v) ds")
  have "adfimage_chdir L (abspath ds) im = Some (b, homed L im)"
    using homed_walk [OF ds assms(3,4) walk] adfimage_chdir_absolute [OF ds(1) assms(3,4), of L] walk
      length_abspath_entered [OF walk] ds(3) by simp
  from chdir_absolute_in_sync [OF assms(1) ds(1) assms(3,4) this] show ?thesis .
qed

lemma homed_id: "nav_ok L \<Longrightarrow> in_sync L im \<Longrightarrow> heap im = [] \<Longrightarrow> homed L im = im"
proof -
  assume *: "nav_ok L" "in_sync L im" "heap im = []"
  from *(2) obtain v where v: "vol im = Some v" by (auto simp: in_sync_def)
  have "im\<lparr>vol := Some v, cwd := cwd im\<rparr> = im" using v by (cases im) simp
  with chdir_back [OF *(1,2) v v same_volume_refl *(3)] show ?thesis by (simp add: homed_def)
qed

lemma homed_vol:
  assumes "nav_ok L" "cwd_ok im" "vol im = Some v" "heap im = []"
  obtains u where "vol (homed L im) = Some u" "same_volume v u"
proof -
  from assms(2) obtain ds where ds: "names ds" "cwd im = abspath ds" "length (abspath ds) < ADFIMAGE_MAX_PATH"
    by (rule cwd_okE)
  obtain b w e where walk: "adf_walk L (adfToRootDir L v) ds = (b, w, e)"
    by (cases "adf_walk L (adfToRootDir L v) ds")
  have "same_volume v w"
    using adf_walk_same [OF assms(1) walk] adfToRootDir_same [OF assms(1), of v]
    by (rule same_volume_trans [rotated])
  with homed_walk [OF ds assms(3,4) walk] that show thesis by simp
qed

lemma homed_heap:
  assumes "cwd_ok im" "heap im = []" "vol im = Some v"
  shows "heap (homed L im) = []"
proof -
  from assms(1) obtain ds where ds: "names ds" "cwd im = abspath ds" "length (abspath ds) < ADFIMAGE_MAX_PATH"
    by (rule cwd_okE)
  obtain b w e where walk: "adf_walk L (adfToRootDir L v) ds = (b, w, e)"
    by (cases "adf_walk L (adfToRootDir L v) ds")
  show ?thesis using homed_walk [OF ds assms(3,2) walk] assms(2) by simp
qed

text \<open>From anywhere on the same volume, a change to \<open>cwd\<close> leads to the same place.\<close>

lemma chdir_home:
  assumes "nav_ok L" "cwd_ok im" "vol im = Some v" "heap im = []" "same_volume v w"
  shows "\<exists>b. adfimage_chdir L (cwd im) (im\<lparr>vol := Some w, cwd := c\<rparr>) = Some (b, homed L im)"
proof -
  from assms(2) obtain ds where ds: "names ds" "cwd im = abspath ds" "length (abspath ds) < ADFIMAGE_MAX_PATH"
    by (rule cwd_okE)
  obtain b x e where walk: "adf_walk L (adfToRootDir L v) ds = (b, x, e)"
    by (cases "adf_walk L (adfToRootDir L v) ds")
  have "adfToRootDir L w = adfToRootDir L v" using same_volume_root [OF assms(1,5)] by simp
  with adfimage_chdir_absolute [OF ds(1), of "im\<lparr>vol := Some w, cwd := c\<rparr>" w L] walk ds
    length_abspath_entered [OF walk] assms(4) homed_walk [OF ds assms(3,4) walk]
  show ?thesis by simp
qed

lemma homed_agrees:
  assumes "nav_ok L" "cwd_ok im" "vol im = Some v" "heap im = []"
  shows "in_sync L (homed L im) \<and> (in_sync L im \<longrightarrow> homed L im = im)"
  using homed_in_sync [OF assms] homed_id [OF assms(1) _ assms(4)] by blast

subsection \<open>The \<open>cwd\<close> buffer\<close>

text \<open>A path that fits the buffer never overflows it, whatever directories exist.\<close>

lemma chdir_absolute_defined:
  assumes "names cs" "vol im = Some v" "heap im = []" "length (abspath cs) < ADFIMAGE_MAX_PATH"
  shows "adfimage_chdir L (abspath cs) im \<noteq> None"
  using adfimage_chdir_absolute [OF assms(1-3), of L] assms(4)
  by (auto split: prod.split dest: length_abspath_entered)

text \<open>A path of existing directories that does not fit overflows it.\<close>

lemma chdir_absolute_overflow:
  assumes "names cs" "vol im = Some v" "heap im = []" "\<not> length (abspath cs) < ADFIMAGE_MAX_PATH"
    and "adf_walk L (adfToRootDir L v) cs = (True, w, e)"
  shows "adfimage_chdir L (abspath cs) im = None"
  using adfimage_chdir_absolute [OF assms(1-3), of L] assms(4,5) adf_walk_entered [OF assms(5)]
  by simp

subsection \<open>Properties\<close>

text \<open>
  C6: Changing to an absolute path enters its directories one after the other from the root.
  It reports whether all could be entered; the current directory and \<open>cwd\<close> are where the walk
  stopped; it is undefined exactly when the path entered does not fit the buffer of \<open>cwd\<close>.
\<close>

theorem chdir_walks_path:
  assumes "names cs" "vol im = Some v" "heap im = []"
    and "adf_walk L (adfToRootDir L v) cs = (b, w, e)"
  shows "adfimage_chdir L (abspath cs) im =
    (if length (abspath e) < ADFIMAGE_MAX_PATH
     then Some (b, im\<lparr>vol := Some w, cwd := abspath e\<rparr>) else None)"
  using adfimage_chdir_absolute [OF assms(1-3), of L] assms(4) by simp

text \<open>
  C5: After a change of directory by a canonical absolute path, \<open>cwd\<close> and ADFlib's current directory agree,
  whether or not they did before and whether the change succeeded or stopped half way. After a
  change by a relative path they agree if they did before.
\<close>

theorem chdir_keeps_sync:
  assumes "nav_ok L" "names cs" "vol im = Some v" "heap im = []"
    and "p = abspath cs \<or> p = relpath cs \<and> cs \<noteq> [] \<and> in_sync L im" "adfimage_chdir L p im = Some (b, im')"
  shows "in_sync L im'"
  using assms(5)
proof
  assume "p = abspath cs"
  with chdir_absolute_in_sync [OF assms(1-4)] assms(6) show ?thesis by blast
next
  assume "p = relpath cs \<and> cs \<noteq> [] \<and> in_sync L im"
  with assms show ?thesis by (auto intro: chdir_relative_in_sync)
qed

text \<open>
  C24: From an image whose two directories agree, changing to any canonical path and then back
  to the \<open>cwd\<close> of before restores the image exactly, also when the first change failed.
\<close>

theorem chdir_there_and_back:
  assumes "nav_ok L" "names cs" "in_sync L im" "heap im = []"
    and "adfimage_chdir L (abspath cs) im = Some (b, im')"
  shows "adfimage_chdir L (cwd im) im' = Some (True, im)"
proof -
  from assms(3) obtain v where v: "vol im = Some v" by (auto simp: in_sync_def)
  obtain b' w e where walk: "adf_walk L (adfToRootDir L v) cs = (b', w, e)"
    by (cases "adf_walk L (adfToRootDir L v) cs")
  have im': "im' = im\<lparr>vol := Some w, cwd := abspath e\<rparr>"
    using adfimage_chdir_absolute [OF assms(2) v assms(4), of L] assms(5) walk by (auto split: if_splits)
  have "same_volume v w"
    using adf_walk_same [OF assms(1) walk] adfToRootDir_same [OF assms(1), of v]
    by (rule same_volume_trans [rotated])
  moreover have "im\<lparr>vol := Some v, cwd := cwd im\<rparr> = im" using v by (cases im) simp
  ultimately show ?thesis
    using chdir_back [OF assms(1,3) v, of im' w] im' assms(4) by simp
qed

end
