(* ===== verification/Adf_Dentry.thy ===== *)
theory Adf_Dentry
  imports Adf_Chdir
begin

section \<open>Directory entries and permissions: \<open>src/src/adfimage.c\<close>\<close>

text \<open>
  Counting, looking up and classifying directory entries, and reading and setting their
  access bits. The lemmas give the result of a look-up as a search of one directory's list,
  the state it leaves behind, and the table of permissions that \<open>adfimage_setperm\<close> really sets.
\<close>

subsection \<open>Types of entries\<close>

datatype dentry_type =
    ADFVOLUME_DENTRY_NONE
  | ADFVOLUME_DENTRY_FILE
  | ADFVOLUME_DENTRY_DIRECTORY
  | ADFVOLUME_DENTRY_LINKFILE
  | ADFVOLUME_DENTRY_LINKDIR
  | ADFVOLUME_DENTRY_SOFTLINK
  | ADFVOLUME_DENTRY_UNKNOWN

text \<open>The value of the enumeration constant, and the order it gives the type.\<close>

fun dentry_code :: "dentry_type \<Rightarrow> nat" where
  "dentry_code ADFVOLUME_DENTRY_NONE = 0"
| "dentry_code ADFVOLUME_DENTRY_FILE = 1"
| "dentry_code ADFVOLUME_DENTRY_DIRECTORY = 2"
| "dentry_code ADFVOLUME_DENTRY_LINKFILE = 3"
| "dentry_code ADFVOLUME_DENTRY_LINKDIR = 4"
| "dentry_code ADFVOLUME_DENTRY_SOFTLINK = 5"
| "dentry_code ADFVOLUME_DENTRY_UNKNOWN = 6"

lemma dentry_code_inject: "dentry_code a = dentry_code b \<longleftrightarrow> a = b"
  by (cases a; cases b) simp_all

instantiation dentry_type :: linorder
begin

definition less_eq_dentry_type :: "dentry_type \<Rightarrow> dentry_type \<Rightarrow> bool" where
  "a \<le> b \<longleftrightarrow> dentry_code a \<le> dentry_code b"

definition less_dentry_type :: "dentry_type \<Rightarrow> dentry_type \<Rightarrow> bool" where
  "a < b \<longleftrightarrow> dentry_code a < dentry_code b"

instance
  by standard
    (auto simp: less_eq_dentry_type_def less_dentry_type_def dentry_code_inject)

end

record adfimage_dentry =
  dtype :: dentry_type
  adflib_entry :: AdfEntry

text \<open>What \<open>{ .type = ADFVOLUME_DENTRY_NONE }\<close> initialises: everything else is zero.\<close>

definition no_entry :: AdfEntry where
  "no_entry =
     \<lparr>e_type = 0, e_name = [], e_sector = 0, e_real = 0, e_parent = 0, e_access = 0,
      e_year = 0, e_month = 0, e_days = 0, e_hour = 0, e_mins = 0, e_secs = 0\<rparr>"

definition no_dentry :: adfimage_dentry where
  "no_dentry = \<lparr>dtype = ADFVOLUME_DENTRY_NONE, adflib_entry = no_entry\<rparr>"

definition adfimage_dentry_valid :: "adfimage_dentry \<Rightarrow> bool" where
  "adfimage_dentry_valid d \<longleftrightarrow> dtype d > ADFVOLUME_DENTRY_NONE \<and> dtype d < ADFVOLUME_DENTRY_UNKNOWN"

subsection \<open>Listing a directory\<close>

fun adflist_count_entries :: "AdfEntry list \<Rightarrow> int" where
  "adflist_count_entries [] = 0"
| "adflist_count_entries (c # cells) = 1 + adflist_count_entries cells"

fun adflib_list_find :: "AdfEntry list \<Rightarrow> string \<Rightarrow> AdfEntry option" where
  "adflib_list_find [] entry_name = None"
| "adflib_list_find (dentry # rest) entry_name =
     (if e_name dentry = entry_name then Some dentry else adflib_list_find rest entry_name)"

definition adfimage_count_cwd_entries ::
  "('d, 'f) adflib \<Rightarrow> 'd adfimage \<Rightarrow> int option" where
  "adfimage_count_cwd_entries L im = do {
     v \<leftarrow> vol im;
     Some (adflist_count_entries (adfGetDirEnt L v (curDirPtr v)))
   }"

text \<open>The local copy of \<open>cwd\<close> is an array on the stack, not an allocation.\<close>

definition adfimage_count_dir_entries ::
  "('d, 'f) adflib \<Rightarrow> string \<Rightarrow> 'd adfimage \<Rightarrow> (int \<times> 'd adfimage) option" where
  "adfimage_count_dir_entries L path im = do {
     (_, im1) \<leftarrow> adfimage_chdir L path im;
     nentries \<leftarrow> adfimage_count_cwd_entries L im1;
     (_, im2) \<leftarrow> adfimage_chdir L (cwd im) im1;
     Some (nentries, im2)
   }"

subsection \<open>Looking up an entry\<close>

definition adfimage_get_root_dentry ::
  "('d, 'f) adflib \<Rightarrow> 'd adfimage \<Rightarrow> adfimage_dentry option" where
  "adfimage_get_root_dentry L im = do {
     v \<leftarrow> vol im;
     let (rc, rootBlk) = adfReadRootBlock L v (rootBlock v);
     if \<not> rc_ok L rc then Some no_dentry
     else let (rc2, ent) = adfEntBlock2Entry L rootBlk no_entry
       in if \<not> rc_ok L rc2 then Some (no_dentry\<lparr>adflib_entry := ent\<rparr>)
          else if e_type ent = ADF_ST_ROOT (K L)
          then Some \<lparr>dtype = ADFVOLUME_DENTRY_DIRECTORY,
                     adflib_entry = ent\<lparr>e_sector := rootBlock v, e_real := 0, e_parent := 0\<rparr>\<rparr>
          else Some (no_dentry\<lparr>adflib_entry := ent\<rparr>)
   }"

definition dentry_type_of :: "('d, 'f) adflib \<Rightarrow> AdfEntry \<Rightarrow> dentry_type" where
  "dentry_type_of L e =
     (if e_type e = ADF_ST_FILE (K L) then ADFVOLUME_DENTRY_FILE
      else if e_type e = ADF_ST_ROOT (K L) \<or> e_type e = ADF_ST_DIR (K L)
        then ADFVOLUME_DENTRY_DIRECTORY
      else if e_type e = ADF_ST_LFILE (K L) then ADFVOLUME_DENTRY_LINKFILE
      else if e_type e = ADF_ST_LDIR (K L) then ADFVOLUME_DENTRY_LINKDIR
      else if e_type e = ADF_ST_LSOFT (K L) then ADFVOLUME_DENTRY_SOFTLINK
      else ADFVOLUME_DENTRY_UNKNOWN)"

text \<open>\<open>if ( cwd ) adfimage_chdir ( adfimage, cwd )\<close>, the way back in five functions.\<close>

definition go_back ::
  "('d, 'f) adflib \<Rightarrow> string option \<Rightarrow> 'd adfimage \<Rightarrow> 'd adfimage option" where
  "go_back L saved im =
     (case saved of
        None \<Rightarrow> Some im
      | Some c \<Rightarrow> do { (_, im') \<leftarrow> adfimage_chdir L c im; Some im' })"

definition adfimage_getdentry ::
  "('d, 'f) adflib \<Rightarrow> string \<Rightarrow> 'd adfimage \<Rightarrow> (adfimage_dentry \<times> 'd adfimage) option" where
  "adfimage_getdentry L pathname im =
     (if pathname = ''/'' then do {
        d \<leftarrow> adfimage_get_root_dentry L im;
        Some (d, im)
      }
      else case new_path pathname im of
        (None, im1) \<Rightarrow> Some (no_dentry, im1)
      | (Some path, im1) \<Rightarrow> do {
          (saved, im2) \<leftarrow>
            (if length (dirpath path) > 0 then
               (case dup (cwd im1) im1 of (saved, im1') \<Rightarrow> do {
                  (_, im2) \<leftarrow> adfimage_chdir L (dirpath path) im1';
                  Some (saved, im2)
                })
             else Some (None, im1));
          v \<leftarrow> vol im2;
          let dentries = adfGetDirEnt L v (curDirPtr v);
          if dentries = [] then Some (no_dentry, im2)
          else do {
            let adf_dentry =
              (case adflib_list_find dentries (entryname path) of
                 None \<Rightarrow> no_dentry
               | Some dentry \<Rightarrow> \<lparr>dtype = dentry_type_of L dentry, adflib_entry = dentry\<rparr>);
            im3 \<leftarrow> go_back L saved im2;
            Some (adf_dentry, im3)
          }
        })"

subsection \<open>Permissions\<close>

definition ADF_PERM_READ :: "32 word" where "ADF_PERM_READ = 1"
definition ADF_PERM_WRITE :: "32 word" where "ADF_PERM_WRITE = 2"
definition ADF_PERM_EXECUTE :: "32 word" where "ADF_PERM_EXECUTE = 4"

lemmas perm_defs = ADF_PERM_READ_def ADF_PERM_WRITE_def ADF_PERM_EXECUTE_def

definition adfimage_getperm :: "('d, 'f) adflib \<Rightarrow> adfimage_dentry \<Rightarrow> 32 word" where
  "adfimage_getperm L d =
     or (or (if adfAccHasR L (e_access (adflib_entry d)) then 0 else ADF_PERM_READ)
            (if adfAccHasW L (e_access (adflib_entry d)) then 0 else ADF_PERM_WRITE))
        (if adfAccHasE L (e_access (adflib_entry d)) then 0 else ADF_PERM_EXECUTE)"

text \<open>The logical negation \<open>!\<close> of C.\<close>

definition c_not :: "32 word \<Rightarrow> 32 word" where
  "c_not x = (if x = 0 then 1 else 0)"

text \<open>One of the three steps that compute the new access bits.\<close>

definition set_access_bit :: "32 word \<Rightarrow> bool \<Rightarrow> 32 word \<Rightarrow> 32 word" where
  "set_access_bit bits granted access =
     (if granted then and access (c_not bits) else or access bits)"

definition new_access :: "('d, 'f) adflib \<Rightarrow> 32 word \<Rightarrow> 32 word \<Rightarrow> 32 word" where
  "new_access L perms access =
     (let a1 = set_access_bit (ADF_ACCMASK_R (K L)) (and perms ADF_PERM_READ \<noteq> 0) access;
          a2 = set_access_bit (ADF_ACCMASK_W (K L)) (and perms ADF_PERM_WRITE \<noteq> 0) a1
      in set_access_bit (ADF_ACCMASK_E (K L)) (and perms ADF_PERM_EXECUTE \<noteq> 0) a2)"

definition adfimage_setperm ::
  "('d, 'f) adflib \<Rightarrow> string \<Rightarrow> 32 word \<Rightarrow> 'd adfimage \<Rightarrow> (bool \<times> 'd adfimage) option" where
  "adfimage_setperm L path perms im = do {
     (dentry, im1) \<leftarrow> adfimage_getdentry L path im;
     if \<not> adfimage_dentry_valid dentry then Some (False, im1)
     else do {
       v \<leftarrow> vol im1;
       let sector = e_sector (adflib_entry dentry);
       let (rc, entryBlock) = adfReadEntryBlock L v sector;
       if \<not> rc_ok L rc then Some (False, im1)
       else
         let (rc2, v2) = adfWriteEntryBlock L v sector
               (entryBlock\<lparr>b_access := new_access L perms (b_access entryBlock)\<rparr>)
         in Some (rc_ok L rc2, im1\<lparr>vol := Some v2\<rparr>)
     }
   }"

subsection \<open>Frames\<close>

lemma go_back_same_mount: "go_back L saved im = Some im' \<Longrightarrow> same_mount im im'"
  by (auto simp: go_back_def bind_pair_Some_iff split: option.split_asm
      dest: adfimage_chdir.keeps_mount)

lemma adfimage_getdentry_same_mount:
  assumes "adfimage_getdentry L pathname im = Some (d, im')"
  shows "same_mount im im'"
proof (cases "pathname = ''/''")
  case True
  with assms show ?thesis by (auto simp: adfimage_getdentry_def bind_Some_iff)
next
  case False
  obtain p im1 where path: "new_path pathname im = (p, im1)" by (cases "new_path pathname im")
  note m1 = new_path_frame [OF path]
  show ?thesis
  proof (cases p)
    case None
    with False path m1 assms show ?thesis by (simp add: adfimage_getdentry_def)
  next
    case (Some q)
    obtain saved im1' where dp: "dup (cwd im1) im1 = (saved, im1')" by (cases "dup (cwd im1) im1")
    note m2 = dup_frame [OF dp]
    from False path Some dp assms obtain s2 im2 where
      im2: "im2 = im1 \<or> (\<exists>b. adfimage_chdir L (dirpath q) im1' = Some (b, im2))"
      and rest: "im' = im2 \<or> go_back L s2 im2 = Some im'"
      by (fastforce simp: adfimage_getdentry_def bind_Some_iff bind_pair_Some_iff Let_def split: if_split_asm)
    from im2 m2 have "same_mount im1 im2"
      by (auto dest: adfimage_chdir.keeps_mount intro: same_mount_trans)
    moreover from rest have "same_mount im2 im'" by (auto dest: go_back_same_mount)
    ultimately show ?thesis using m1 by (blast intro: same_mount_trans)
  qed
qed

interpretation adfimage_getdentry: image_op "adfimage_getdentry L pathname" for L :: "('d, 'f) adflib" and pathname
  by unfold_locales (rule adfimage_getdentry_same_mount)

interpretation adfimage_count_dir_entries: image_op "adfimage_count_dir_entries L path"
  for L :: "('d, 'f) adflib" and path
  by unfold_locales
    (auto simp: adfimage_count_dir_entries_def bind_pair_Some_iff bind_Some_iff
      dest!: adfimage_chdir.keeps_mount intro: same_mount_trans)

interpretation adfimage_setperm: image_op "adfimage_setperm L path perms"
  for L :: "('d, 'f) adflib" and path perms
proof
  fix im :: "'d adfimage" and r im'
  assume "adfimage_setperm L path perms im = Some (r, im')"
  then obtain d im1 where "adfimage_getdentry L path im = Some (d, im1)"
    and "im' = im1 \<or> (vol im1 \<noteq> None \<and> (\<exists>v. im' = im1\<lparr>vol := Some v\<rparr>))"
    by (auto simp: adfimage_setperm_def bind_Some_iff Let_def split_beta split: if_split_asm)
  then show "same_mount im im'"
    using adfimage_getdentry.keeps_mount by (metis same_mount_trans same_mount_update(1))
qed

subsection \<open>Counting and finding\<close>

lemma adflist_count_entries_length: "adflist_count_entries es = int (length es)"
  by (induction es) auto

lemma adflib_list_find_eq: "adflib_list_find es name = find (\<lambda>e. e_name e = name) es"
  by (induction es) auto

lemma adflib_list_find_Some:
  "adflib_list_find es name = Some e \<Longrightarrow> e \<in> set es \<and> e_name e = name"
  by (auto simp: adflib_list_find_eq find_Some_iff)

lemma adflib_list_find_None: "adflib_list_find es name = None \<longleftrightarrow> name \<notin> e_name ` set es"
  by (auto simp: adflib_list_find_eq find_None_iff)

text \<open>The specification of a look-up in one directory's list.\<close>

definition lookup_entry :: "('d, 'f) adflib \<Rightarrow> AdfEntry list \<Rightarrow> string \<Rightarrow> adfimage_dentry" where
  "lookup_entry L es name =
     (case adflib_list_find es name of
        None \<Rightarrow> no_dentry
      | Some e \<Rightarrow> \<lparr>dtype = dentry_type_of L e, adflib_entry = e\<rparr>)"

lemma lookup_entry_Nil [simp]: "lookup_entry L [] name = no_dentry"
  by (simp add: lookup_entry_def)

lemma lookup_entry_first:
  "if c \<in> e_name ` set es
   then dtype (lookup_entry L es c) = dentry_type_of L (adflib_entry (lookup_entry L es c)) \<and>
     e_name (adflib_entry (lookup_entry L es c)) = c \<and>
     (\<exists>before behind. es = before @ adflib_entry (lookup_entry L es c) # behind \<and> c \<notin> e_name ` set before)
   else dtype (lookup_entry L es c) = ADFVOLUME_DENTRY_NONE"
proof (induction es)
  case Nil
  then show ?case by (simp add: no_dentry_def)
next
  case (Cons x es)
  show ?case
  proof (cases "e_name x = c")
    case True
    then show ?thesis by (auto simp: lookup_entry_def intro: exI [of _ "[]"])
  next
    case False
    then have eq: "lookup_entry L (x # es) c = lookup_entry L es c" by (simp add: lookup_entry_def)
    show ?thesis
    proof (cases "c \<in> e_name ` set es")
      case True
      with Cons obtain before behind where
        "es = before @ adflib_entry (lookup_entry L es c) # behind" "c \<notin> e_name ` set before" by auto
      then have "x # es = (x # before) @ adflib_entry (lookup_entry L es c) # behind"
        and "c \<notin> e_name ` set (x # before)" using False by auto
      then have "\<exists>before behind. x # es = before @ adflib_entry (lookup_entry L es c) # behind \<and>
          c \<notin> e_name ` set before" by blast
      with Cons True show ?thesis unfolding eq by simp
    next
      case no: False
      with Cons False show ?thesis unfolding eq by auto
    qed
  qed
qed

text \<open>
  A look-up by absolute path, whatever the walk to its directory does: it searches the list
  of the directory where the walk stopped. If that list is not empty, the look-up changes back
  to \<open>cwd\<close>; if it is empty, it returns from inside that directory.
\<close>

lemma getdentry_homed:
  assumes "nav_ok L" "names cs" "is_name c" "cwd_ok im" "heap im = []" "vol im = Some v"
    and "adf_walk L (adfToRootDir L v) cs = (b, w, e)" "length (abspath e) < ADFIMAGE_MAX_PATH"
  shows "adfimage_getdentry L (abspath (cs @ [c])) im =
    (let es = adfGetDirEnt L w (curDirPtr w) in
      Some (lookup_entry L es c, if es = [] then im\<lparr>vol := Some w, cwd := abspath e\<rparr> else homed L im))"
proof -
  let ?im2 = "im\<lparr>vol := Some w, cwd := abspath e\<rparr>"
  have "abspath (cs @ [c]) \<noteq> ''/''" using assms(2,3) by simp
  moreover have "adfimage_chdir L (abspath cs) im = Some (b, ?im2)"
    using adfimage_chdir_absolute [OF assms(2,6,5), of L] assms(7,8) by simp
  moreover have "same_volume v w"
    using adf_walk_same [OF assms(1,7)] adfToRootDir_same [OF assms(1), of v]
    by (rule same_volume_trans [rotated])
  then obtain b' where "adfimage_chdir L (cwd im) ?im2 = Some (b', homed L im)"
    using chdir_home [OF assms(1,4,6,5)] by blast
  ultimately show ?thesis
    using assms(2,3,5)
    by (auto simp: adfimage_getdentry_def path_simps go_back_def lookup_entry_def Let_def
        split: option.split)
qed

text \<open>If the two working directories agree, that restores the image.\<close>

lemma getdentry_absolute:
  assumes "nav_ok L" "names cs" "is_name c" "in_sync L im" "heap im = []" "vol im = Some v"
    and "adf_walk L (adfToRootDir L v) cs = (b, w, e)" "length (abspath e) < ADFIMAGE_MAX_PATH"
  shows "adfimage_getdentry L (abspath (cs @ [c])) im =
    (let es = adfGetDirEnt L w (curDirPtr w) in
      Some (lookup_entry L es c, if es = [] then im\<lparr>vol := Some w, cwd := abspath e\<rparr> else im))"
  using getdentry_homed [OF assms(1-3) in_sync_cwd_ok [OF assms(4)] assms(5-8)]
    homed_id [OF assms(1,4,5)] by (simp add: Let_def)

text \<open>A look-up by a bare name searches the current directory.\<close>

lemma getdentry_name:
  assumes "nav_ok L" "is_name c" "cwd_ok im" "heap im = []" "vol im = Some v"
  shows "\<exists>im'. adfimage_getdentry L c im =
      Some (lookup_entry L (adfGetDirEnt L v (curDirPtr v)) c, im') \<and> (im' = im \<or> im' = homed L im)"
proof -
  have c: "slash \<notin> set c" "c \<noteq> []" "c \<noteq> ''/''" using is_nameD [OF assms(2)] by auto
  have "im\<lparr>vol := Some v, cwd := cwd im\<rparr> = im" using assms(5) by (cases im) simp
  then obtain b where "adfimage_chdir L (cwd im) im = Some (b, homed L im)"
    using chdir_home [OF assms(1,3,5,4) same_volume_refl, of "cwd im"] by auto
  with assms c show ?thesis
    by (auto simp: adfimage_getdentry_def dirname_no_slash basename_no_slash adfimage_chdir_dot
        go_back_def lookup_entry_def Let_def split: option.split)
qed

lemma count_dir_entries_absolute:
  assumes "nav_ok L" "names cs" "cwd_ok im" "heap im = []" "vol im = Some v"
    and "adf_walk L (adfToRootDir L v) cs = (b, w, e)" "length (abspath e) < ADFIMAGE_MAX_PATH"
  shows "adfimage_count_dir_entries L (abspath cs) im =
    Some (int (length (adfGetDirEnt L w (curDirPtr w))), homed L im)"
proof -
  let ?im2 = "im\<lparr>vol := Some w, cwd := abspath e\<rparr>"
  have "adfimage_chdir L (abspath cs) im = Some (b, ?im2)"
    using adfimage_chdir_absolute [OF assms(2,5,4), of L] assms(6,7) by simp
  moreover have "same_volume v w"
    using adf_walk_same [OF assms(1,6)] adfToRootDir_same [OF assms(1), of v]
    by (rule same_volume_trans [rotated])
  then obtain b' where "adfimage_chdir L (cwd im) ?im2 = Some (b', homed L im)"
    using chdir_home [OF assms(1,3,5,4)] by blast
  ultimately show ?thesis
    by (simp add: adfimage_count_dir_entries_def adfimage_count_cwd_entries_def
        adflist_count_entries_length)
qed

subsection \<open>The permissions that \<open>adfimage_setperm\<close> sets\<close>

text \<open>
  \<open>!mask\<close> is zero for every mask that is not, so granting a permission clears the whole
  access word, the bits set for the permissions before it included.
\<close>

lemma set_access_bit_grant: "bits \<noteq> 0 \<Longrightarrow> set_access_bit bits True a = 0"
  by (simp add: set_access_bit_def c_not_def)

lemma set_access_bit_deny: "set_access_bit bits False a = or a bits"
  by (simp add: set_access_bit_def)

lemma new_access_table:
  assumes "access_ok L"
  shows "new_access L perms a =
    (if and perms ADF_PERM_EXECUTE \<noteq> 0 then 0
     else if and perms ADF_PERM_WRITE \<noteq> 0 then ADF_ACCMASK_E (K L)
     else if and perms ADF_PERM_READ \<noteq> 0 then or (ADF_ACCMASK_W (K L)) (ADF_ACCMASK_E (K L))
     else or (or (or a (ADF_ACCMASK_R (K L))) (ADF_ACCMASK_W (K L))) (ADF_ACCMASK_E (K L)))"
  using assms
  by (auto simp: new_access_def access_ok_def Let_def set_access_bit_grant set_access_bit_deny)

lemma and_or_right: "and (or x y) z = or (and x z) (and y z)" for x y z :: "'a::len word"
  by (rule bit_word_eqI) (auto simp: bit_simps)

lemma and_commutes_zero: "and x y = 0 \<Longrightarrow> and y x = 0" for x y :: "'a::len word"
  by (simp add: and.commute)

lemma or_eq_zero: "or x y = 0 \<longleftrightarrow> x = 0 \<and> y = 0" for x y :: "'a::len word"
  by (auto simp: bit_eq_iff bit_simps)

text \<open>
  The permissions an entry has after the call, as \<open>adfimage_getperm\<close> reads them: the last
  granted one and all before it in the order read, write, execute.
\<close>

definition granted_closure :: "32 word \<Rightarrow> 32 word" where
  "granted_closure perms =
     (if and perms ADF_PERM_EXECUTE \<noteq> 0 then 7
      else if and perms ADF_PERM_WRITE \<noteq> 0 then 3
      else if and perms ADF_PERM_READ \<noteq> 0 then 1 else 0)"

lemma getperm_new_access:
  assumes "access_ok L" "e_access (adflib_entry d) = new_access L perms a"
  shows "adfimage_getperm L d = granted_closure perms"
proof -
  note ok = assms(1) [unfolded access_ok_def]
  from ok have z: "and (ADF_ACCMASK_W (K L)) (ADF_ACCMASK_R (K L)) = 0"
      "and (ADF_ACCMASK_E (K L)) (ADF_ACCMASK_R (K L)) = 0"
      "and (ADF_ACCMASK_E (K L)) (ADF_ACCMASK_W (K L)) = 0"
    by (auto intro: and_commutes_zero)
  show ?thesis
    using ok z
    by (simp add: adfimage_getperm_def assms(2) new_access_table [OF assms(1)] granted_closure_def
        and_or_right or_eq_zero perm_defs)
qed

abbreviation permits :: "32 word \<Rightarrow> 32 word \<Rightarrow> bool" where
  "permits perms p \<equiv> and perms p \<noteq> 0"

lemma granted_closure_permits [simp]:
  "permits (granted_closure perms) ADF_PERM_EXECUTE \<longleftrightarrow> permits perms ADF_PERM_EXECUTE"
  "permits (granted_closure perms) ADF_PERM_WRITE \<longleftrightarrow>
     permits perms ADF_PERM_WRITE \<or> permits perms ADF_PERM_EXECUTE"
  "permits (granted_closure perms) ADF_PERM_READ \<longleftrightarrow>
     permits perms ADF_PERM_READ \<or> permits perms ADF_PERM_WRITE \<or> permits perms ADF_PERM_EXECUTE"
  by (auto simp: granted_closure_def perm_defs)

subsection \<open>Properties\<close>

text \<open>
  C11: A look-up by a canonical absolute path finds the first entry of that name in the directory
  where the walk to the parent stopped, even when the walk failed, or nothing if that directory has
  no such entry. If the directory is empty, the image is left in it. Otherwise the look-up changes
  back to \<open>cwd\<close>: if the two working directories agreed before, the image is restored exactly; if
  they did not (as after \<open>getattr\<close> in a subdirectory), they do now. The path walked must fit the
  buffer of \<open>cwd\<close>.
\<close>

theorem getdentry_finds:
  assumes "nav_ok L" "names cs" "is_name c" "cwd_ok im" "heap im = []" "vol im = Some v"
    and "adf_walk L (adfToRootDir L v) cs = (b, w, e)" "length (abspath e) < ADFIMAGE_MAX_PATH"
    and "es = adfGetDirEnt L w (curDirPtr w)"
  shows "\<exists>d. adfimage_getdentry L (abspath (cs @ [c])) im =
      Some (d, if es = [] then im\<lparr>vol := Some w, cwd := abspath e\<rparr> else homed L im) \<and>
    in_sync L (homed L im) \<and> (in_sync L im \<longrightarrow> homed L im = im) \<and>
    (if c \<in> e_name ` set es
     then dtype d = dentry_type_of L (adflib_entry d) \<and> e_name (adflib_entry d) = c \<and>
       (\<exists>before behind. es = before @ adflib_entry d # behind \<and> c \<notin> e_name ` set before)
     else dtype d = ADFVOLUME_DENTRY_NONE)"
proof -
  have "if c \<in> e_name ` set es
     then dtype (lookup_entry L es c) = dentry_type_of L (adflib_entry (lookup_entry L es c)) \<and>
       e_name (adflib_entry (lookup_entry L es c)) = c \<and>
       (\<exists>before behind. es = before @ adflib_entry (lookup_entry L es c) # behind \<and> c \<notin> e_name ` set before)
     else dtype (lookup_entry L es c) = ADFVOLUME_DENTRY_NONE"
    by (rule lookup_entry_first)
  then show ?thesis
    using getdentry_homed [OF assms(1-8)] homed_agrees [OF assms(1,4,6,5)]
    unfolding assms(9) Let_def by blast
qed

text \<open>
  C23: \<open>adfimage_setperm\<close> writes back the entry's block with an access word that depends on what
  is granted, execute before write before read: empty for execute, the execute bit denied for
  write, write and execute denied for read. In these cases nothing of the old word is kept,
  whatever else it said; only if nothing is granted the old word stays, with all three denied.
  An entry with the new word has, as \<open>adfimage_getperm\<close> reads it, more than was asked for:
  granting write also grants read, and granting execute grants all three.
\<close>

theorem setperm_grants:
  assumes "access_ok L" "adfimage_getdentry L path im = Some (d, im1)" "adfimage_dentry_valid d"
    and "vol im1 = Some v" "adfReadEntryBlock L v (e_sector (adflib_entry d)) = (rc, blk)" "rc_ok L rc"
    and "a = (if permits perms ADF_PERM_EXECUTE then 0
      else if permits perms ADF_PERM_WRITE then ADF_ACCMASK_E (K L)
      else if permits perms ADF_PERM_READ then or (ADF_ACCMASK_W (K L)) (ADF_ACCMASK_E (K L))
      else or (or (or (b_access blk) (ADF_ACCMASK_R (K L))) (ADF_ACCMASK_W (K L))) (ADF_ACCMASK_E (K L)))"
  shows "adfimage_setperm L path perms im =
      (case adfWriteEntryBlock L v (e_sector (adflib_entry d)) (blk\<lparr>b_access := a\<rparr>) of
         (rc2, v2) \<Rightarrow> Some (rc_ok L rc2, im1\<lparr>vol := Some v2\<rparr>)) \<and>
    (\<forall>d'. e_access (adflib_entry d') = a \<longrightarrow>
      (permits (adfimage_getperm L d') ADF_PERM_EXECUTE \<longleftrightarrow> permits perms ADF_PERM_EXECUTE) \<and>
      (permits (adfimage_getperm L d') ADF_PERM_WRITE \<longleftrightarrow>
         permits perms ADF_PERM_WRITE \<or> permits perms ADF_PERM_EXECUTE) \<and>
      (permits (adfimage_getperm L d') ADF_PERM_READ \<longleftrightarrow>
         permits perms ADF_PERM_READ \<or> permits perms ADF_PERM_WRITE \<or> permits perms ADF_PERM_EXECUTE))"
proof -
  have a: "new_access L perms (b_access blk) = a"
    using new_access_table [OF assms(1), of perms "b_access blk"] assms(7) by simp
  show ?thesis
    using assms(2-6) a getperm_new_access [OF assms(1), of _ perms "b_access blk"]
    by (simp add: adfimage_setperm_def split: prod.split)
qed

end
