(* ===== verification/Adf_File.thy ===== *)
theory Adf_File
  imports Adf_Dentry
begin

section \<open>Reading and writing files and links: \<open>src/src/adfimage.c\<close>\<close>

text \<open>
  Opening, reading, writing and truncating a file by path, and reading a link. Sizes and
  offsets are 64 bits wide in the code's parameters and 32 in ADFlib's: the casts are written
  out. A buffer is a list of its bytes; writing past its end is undefined.
\<close>

text \<open>
  Entering the directory of a path: save \<open>cwd\<close>, change to the directory part. The result is
  whether the change worked and the saved \<open>cwd\<close> (null when the copy failed).
\<close>

definition enter_dir ::
  "('d, 'f) adflib \<Rightarrow> path_t \<Rightarrow> 'd adfimage \<Rightarrow> (bool \<times> string option \<times> 'd adfimage) option" where
  "enter_dir L path im =
     (if length (dirpath path) > 0 then
        (case dup (cwd im) im of (saved, im1) \<Rightarrow> do {
           (ok, im2) \<leftarrow> adfimage_chdir L (dirpath path) im1;
           Some (ok, saved, im2)
         })
      else Some (True, None, im))"

definition adfimage_file_open ::
  "('d, 'f) adflib \<Rightarrow> string \<Rightarrow> AdfFileMode \<Rightarrow> 'd adfimage \<Rightarrow> ('f option \<times> 'd adfimage) option" where
  "adfimage_file_open L pathstr mode im =
     (case new_path pathstr im of
        (None, im1) \<Rightarrow> Some (None, im1)
      | (Some path, im1) \<Rightarrow> do {
          (ok, saved, im2) \<leftarrow> enter_dir L path im1;
          if \<not> ok then Some (None, im2)
          else do {
            v \<leftarrow> vol im2;
            let (file, v2) = adfFileOpen L v (entryname path) mode;
            let im3 = im2\<lparr>vol := Some v2\<rparr>;
            if file = None then Some (None, im3)
            else do {
              im4 \<leftarrow> go_back L saved im3;
              Some (file, im4)
            }
          }
        })"

definition adfimage_file_close ::
  "('d, 'f) adflib \<Rightarrow> 'f option \<Rightarrow> 'd adfimage \<Rightarrow> 'd adfimage option" where
  "adfimage_file_close L file im = do {
     v \<leftarrow> vol im;
     Some (im\<lparr>vol := Some (adfFileClose L v file)\<rparr>)
   }"

text \<open>The bytes a callee stores at the start of a buffer.\<close>

definition store_bytes :: "char list \<Rightarrow> char list \<Rightarrow> char list option" where
  "store_bytes bs buffer =
     (if length bs \<le> length buffer then Some (bs @ drop (length bs) buffer) else None)"

text \<open>Seek, then read; a failed seek reads nothing.\<close>

definition seek_and_read ::
  "('d, 'f) adflib \<Rightarrow> 'd AdfVolume \<Rightarrow> 'f \<Rightarrow> 64 word \<Rightarrow> 64 word \<Rightarrow> char list
    \<Rightarrow> (int \<times> char list \<times> 'f \<times> 'd AdfVolume) option" where
  "seek_and_read L v file sz offset buffer =
     (case adfFileSeek L v file (ucast offset) of (rc, file1, v1) \<Rightarrow>
        if rc_ok L rc then
          (case adfFileRead L v1 file1 (ucast sz) of (bs, file2, v2) \<Rightarrow> do {
             buffer' \<leftarrow> store_bytes bs buffer;
             Some (sint (word_of_nat (length bs) :: 32 word), buffer', file2, v2)
           })
        else Some (0, buffer, file1, v1))"

definition adfimage_read ::
  "('d, 'f) adflib \<Rightarrow> string \<Rightarrow> char list \<Rightarrow> 64 word \<Rightarrow> 64 word \<Rightarrow> 'd adfimage
    \<Rightarrow> (int \<times> char list \<times> 'd adfimage) option" where
  "adfimage_read L pathstr buffer sz offset im =
     (case new_path pathstr im of
        (None, im1) \<Rightarrow> Some (- EINVAL, buffer, im1)
      | (Some path, im1) \<Rightarrow> do {
          (ok, saved, im2) \<leftarrow> enter_dir L path im1;
          if \<not> ok then Some (- ENOENT, buffer, im2)
          else do {
            v \<leftarrow> vol im2;
            let (file, v2) = adfFileOpen L v (entryname path) ADF_FILE_MODE_READ;
            case file of
              None \<Rightarrow> Some (- ENOENT, buffer, im2\<lparr>vol := Some v2\<rparr>)
            | Some f \<Rightarrow> do {
                (bytes_read, buffer', f2, v3) \<leftarrow> seek_and_read L v2 f sz offset buffer;
                im4 \<leftarrow> go_back L saved (im2\<lparr>vol := Some (adfFileClose L v3 (Some f2))\<rparr>);
                Some (bytes_read, buffer', im4)
              }
          }
        })"

text \<open>Seek, then write the first \<open>size\<close> bytes of the buffer.\<close>

definition seek_and_write ::
  "('d, 'f) adflib \<Rightarrow> 'd AdfVolume \<Rightarrow> 'f \<Rightarrow> 64 word \<Rightarrow> 64 word \<Rightarrow> char list
    \<Rightarrow> (int \<times> 'f \<times> 'd AdfVolume) option" where
  "seek_and_write L v file sz offset buffer =
     (case adfFileSeek L v file (ucast offset) of (rc, file1, v1) \<Rightarrow>
        if rc_ok L rc then
          (let n = unat (ucast sz :: 32 word) in
           if length buffer < n then None
           else case adfFileWrite L v1 file1 (take n buffer) of (written, file2, v2) \<Rightarrow>
             Some (sint written, file2, v2))
        else Some (0, file1, v1))"

definition adfimage_write ::
  "('d, 'f) adflib \<Rightarrow> string \<Rightarrow> char list \<Rightarrow> 64 word \<Rightarrow> 64 word \<Rightarrow> 'd adfimage
    \<Rightarrow> (int \<times> 'd adfimage) option" where
  "adfimage_write L pathstr buffer sz offset im =
     (case new_path pathstr im of
        (None, im1) \<Rightarrow> Some (- EINVAL, im1)
      | (Some path, im1) \<Rightarrow> do {
          (ok, saved, im2) \<leftarrow> enter_dir L path im1;
          if \<not> ok then Some (- ENOENT, im2)
          else do {
            v \<leftarrow> vol im2;
            let (file, v2) = adfFileOpen L v (entryname path) ADF_FILE_MODE_WRITE;
            case file of
              None \<Rightarrow> Some (- ENOENT, im2\<lparr>vol := Some v2\<rparr>)
            | Some f \<Rightarrow> do {
                (bytes_written, f2, v3) \<leftarrow> seek_and_write L v2 f sz offset buffer;
                im4 \<leftarrow> go_back L saved (im2\<lparr>vol := Some (adfFileClose L v3 (Some f2))\<rparr>);
                Some (bytes_written, im4)
              }
          }
        })"

definition adfimage_file_truncate ::
  "('d, 'f) adflib \<Rightarrow> string \<Rightarrow> 64 word \<Rightarrow> 'd adfimage \<Rightarrow> (int \<times> 'd adfimage) option" where
  "adfimage_file_truncate L path new_size im = do {
     (file, im1) \<leftarrow> adfimage_file_open L path ADF_FILE_MODE_WRITE im;
     case file of
       None \<Rightarrow> Some (- ENOENT, im1)
     | Some f \<Rightarrow> do {
         v \<leftarrow> vol im1;
         let (rc, f2, v2) = adfFileTruncate L v f (ucast new_size);
         im2 \<leftarrow> adfimage_file_close L (Some f2) (im1\<lparr>vol := Some v2\<rparr>);
         Some (if rc_ok L rc then 0 else - 1, im2)
       }
   }"

subsection \<open>Links\<close>

text \<open>\<open>strncpy\<close>: the text, padded with zeros to \<open>n\<close> bytes, cut after \<open>n\<close>.\<close>

definition strncpy :: "char list \<Rightarrow> string \<Rightarrow> nat \<Rightarrow> char list" where
  "strncpy buffer src n = take n (src @ replicate n NUL) @ drop n buffer"

text \<open>
  The part between entering the directory and going back: find the entry's block; the text is
  the target of a soft link, or the name of the entry a hard link stands for.
\<close>

definition link_text ::
  "('d, 'f) adflib \<Rightarrow> 'd AdfVolume \<Rightarrow> string \<Rightarrow> char list \<Rightarrow> nat \<Rightarrow> (int \<times> char list) option" where
  "link_text L v name buffer len_max =
     (let (rc, parent) = adfReadEntryBlock L v (curDirPtr v) in
      if \<not> rc_ok L rc then Some (- 1, buffer)
      else let (sectNum, entry) = adfNameToEntryBlk L v (b_hashTable parent) name in
      if sectNum = - 1 then Some (- 2, buffer)
      else if length buffer < len_max then None
      else if b_secType entry = ADF_ST_LSOFT (K L)
      then Some (0, strncpy buffer (b_realName entry) len_max)
      else let (rc2, real_entry) = adfReadEntryBlock L v (b_realEntry entry) in
      if \<not> rc_ok L rc2 then Some (- 3, strncpy buffer [] len_max)
      else Some (0, strncpy buffer (b_name real_entry) len_max))"

definition adfimage_readlink ::
  "('d, 'f) adflib \<Rightarrow> string \<Rightarrow> char list \<Rightarrow> nat \<Rightarrow> 'd adfimage
    \<Rightarrow> (int \<times> char list \<times> 'd adfimage) option" where
  "adfimage_readlink L pathstr buffer len_max im =
     (case new_path pathstr im of
        (None, im1) \<Rightarrow> Some (- EINVAL, buffer, im1)
      | (Some path, im1) \<Rightarrow> do {
          (ok, saved, im2) \<leftarrow> enter_dir L path im1;
          if \<not> ok then Some (- 1, buffer, im2)
          else do {
            v \<leftarrow> vol im2;
            (status, buffer') \<leftarrow> link_text L v (entryname path) buffer len_max;
            im3 \<leftarrow> go_back L saved im2;
            Some (status, buffer', im3)
          }
        })"

subsection \<open>Frames\<close>

lemma enter_dir_same_mount: "enter_dir L path im = Some (ok, saved, im') \<Longrightarrow> same_mount im im'"
  by (auto simp: enter_dir_def bind_pair_Some_iff split: prod.split_asm if_split_asm
      dest!: dup_frame adfimage_chdir.keeps_mount intro: same_mount_trans)

lemma set_vol_same_mount: "vol im = Some v \<Longrightarrow> same_mount im (im\<lparr>vol := Some w\<rparr>)"
  by simp

lemma set_vol_then: "vol im = Some v \<Longrightarrow> same_mount (im\<lparr>vol := Some w\<rparr>) im' \<Longrightarrow> same_mount im im'"
  by (rule same_mount_trans [OF set_vol_same_mount])

text \<open>The shape the functions share: split the path, enter its directory, do the work, go back.\<close>

lemma file_op_same_mount:
  assumes "new_path pathstr im = (p, im1)" "enter_dir L q im1 = Some (ok, saved, im2)"
    and "im' = im2 \<or> (\<exists>v w. vol im2 = Some v \<and>
      (im' = im2\<lparr>vol := Some w\<rparr> \<or> go_back L saved (im2\<lparr>vol := Some w\<rparr>) = Some im'))"
  shows "same_mount im im'"
proof -
  have "same_mount im im2"
    using new_path_frame [OF assms(1)] enter_dir_same_mount [OF assms(2)]
    by (blast intro: same_mount_trans)
  moreover have "same_mount im2 im'"
    using assms(3) by (auto dest!: go_back_same_mount elim: set_vol_then)
  ultimately show ?thesis by (rule same_mount_trans)
qed

lemma file_open_same_mount:
  assumes "adfimage_file_open L pathstr mode im = Some (f, im')"
  shows "same_mount im im'"
proof -
  obtain p im1 where path: "new_path pathstr im = (p, im1)" by (cases "new_path pathstr im")
  show ?thesis
  proof (cases p)
    case None
    with assms path new_path_frame [OF path] show ?thesis by (simp add: adfimage_file_open_def)
  next
    case (Some q)
    with assms path obtain ok saved im2 where "enter_dir L q im1 = Some (ok, saved, im2)"
      and "im' = im2 \<or> (\<exists>v w. vol im2 = Some v \<and>
        (im' = im2\<lparr>vol := Some w\<rparr> \<or> go_back L saved (im2\<lparr>vol := Some w\<rparr>) = Some im'))"
      by (fastforce simp: adfimage_file_open_def bind_Some_iff Let_def split_beta split: if_split_asm)
    then show ?thesis by (rule file_op_same_mount [OF path])
  qed
qed

interpretation adfimage_file_open: image_op "adfimage_file_open L pathstr mode"
  for L :: "('d, 'f) adflib" and pathstr mode
  by unfold_locales (rule file_open_same_mount)

lemma adfimage_read_same_mount:
  assumes "adfimage_read L pathstr buffer sz offset im = Some (r, buffer', im')"
  shows "same_mount im im'"
proof -
  obtain p im1 where path: "new_path pathstr im = (p, im1)" by (cases "new_path pathstr im")
  show ?thesis
  proof (cases p)
    case None
    with assms path new_path_frame [OF path] show ?thesis by (simp add: adfimage_read_def)
  next
    case (Some q)
    with assms path obtain ok saved im2 where "enter_dir L q im1 = Some (ok, saved, im2)"
      and "im' = im2 \<or> (\<exists>v w. vol im2 = Some v \<and>
        (im' = im2\<lparr>vol := Some w\<rparr> \<or> go_back L saved (im2\<lparr>vol := Some w\<rparr>) = Some im'))"
      by (fastforce simp: adfimage_read_def bind_Some_iff Let_def split_beta
          split: if_split_asm option.split_asm)
    then show ?thesis by (rule file_op_same_mount [OF path])
  qed
qed

lemma adfimage_write_same_mount:
  assumes "adfimage_write L pathstr buffer sz offset im = Some (r, im')"
  shows "same_mount im im'"
proof -
  obtain p im1 where path: "new_path pathstr im = (p, im1)" by (cases "new_path pathstr im")
  show ?thesis
  proof (cases p)
    case None
    with assms path new_path_frame [OF path] show ?thesis by (simp add: adfimage_write_def)
  next
    case (Some q)
    with assms path obtain ok saved im2 where "enter_dir L q im1 = Some (ok, saved, im2)"
      and "im' = im2 \<or> (\<exists>v w. vol im2 = Some v \<and>
        (im' = im2\<lparr>vol := Some w\<rparr> \<or> go_back L saved (im2\<lparr>vol := Some w\<rparr>) = Some im'))"
      by (fastforce simp: adfimage_write_def bind_Some_iff Let_def split_beta
          split: if_split_asm option.split_asm)
    then show ?thesis by (rule file_op_same_mount [OF path])
  qed
qed

lemma adfimage_readlink_same_mount:
  assumes "adfimage_readlink L pathstr buffer n im = Some (r, buffer', im')"
  shows "same_mount im im'"
proof -
  obtain p im1 where path: "new_path pathstr im = (p, im1)" by (cases "new_path pathstr im")
  show ?thesis
  proof (cases p)
    case None
    with assms path new_path_frame [OF path] show ?thesis by (simp add: adfimage_readlink_def)
  next
    case (Some q)
    with assms path obtain ok saved im2 where enter: "enter_dir L q im1 = Some (ok, saved, im2)"
      and "im' = im2 \<or> go_back L saved im2 = Some im'"
      by (auto simp: adfimage_readlink_def bind_Some_iff bind_pair_Some_iff split: if_split_asm)
    then have "same_mount im2 im'" by (auto dest: go_back_same_mount)
    with new_path_frame [OF path] enter_dir_same_mount [OF enter] show ?thesis
      by (blast intro: same_mount_trans)
  qed
qed

interpretation adfimage_read: image_op
  "\<lambda>im. map_option (\<lambda>(r, b, im'). ((r, b), im')) (adfimage_read L pathstr buffer sz offset im)"
  for L :: "('d, 'f) adflib" and pathstr buffer sz offset
  by unfold_locales (auto dest: adfimage_read_same_mount)

interpretation adfimage_write: image_op "adfimage_write L pathstr buffer sz offset"
  for L :: "('d, 'f) adflib" and pathstr buffer sz offset
  by unfold_locales (rule adfimage_write_same_mount)

interpretation adfimage_readlink: image_op
  "\<lambda>im. map_option (\<lambda>(r, b, im'). ((r, b), im')) (adfimage_readlink L pathstr buffer n im)"
  for L :: "('d, 'f) adflib" and pathstr buffer n
  by unfold_locales (auto dest: adfimage_readlink_same_mount)

lemma file_close_same_mount: "adfimage_file_close L f im = Some im' \<Longrightarrow> same_mount im im'"
  by (auto simp: adfimage_file_close_def bind_Some_iff)

lemma adfimage_file_truncate_same_mount:
  assumes "adfimage_file_truncate L path sz im = Some (r, im')"
  shows "same_mount im im'"
proof -
  from assms obtain f im1 where "adfimage_file_open L path ADF_FILE_MODE_WRITE im = Some (f, im1)"
    and rest: "im' = im1 \<or> (\<exists>v w g. vol im1 = Some v \<and>
      adfimage_file_close L (Some g) (im1\<lparr>vol := Some w\<rparr>) = Some im')"
    by (fastforce simp: adfimage_file_truncate_def bind_Some_iff Let_def split_beta split: option.split_asm)
  then have "same_mount im im1" by (auto dest: adfimage_file_open.keeps_mount)
  moreover from rest have "same_mount im1 im'"
    by (auto dest!: file_close_same_mount elim: set_vol_then)
  ultimately show ?thesis by (rule same_mount_trans)
qed

interpretation adfimage_file_truncate: image_op "adfimage_file_truncate L path sz"
  for L :: "('d, 'f) adflib" and path sz
  by unfold_locales (rule adfimage_file_truncate_same_mount)

subsection \<open>Volumes with the same directories\<close>

text \<open>Writing a file changes the volume, but not which directories it has.\<close>

definition same_tree :: "('d, 'f) adflib \<Rightarrow> 'd AdfVolume \<Rightarrow> 'd AdfVolume \<Rightarrow> bool" where
  "same_tree L v w \<longleftrightarrow>
     rootBlock v = rootBlock w \<and>
     (\<forall>s n. fst (adfChangeDir L (v\<lparr>curDirPtr := s\<rparr>) n) = fst (adfChangeDir L (w\<lparr>curDirPtr := s\<rparr>) n) \<and>
        curDirPtr (snd (adfChangeDir L (v\<lparr>curDirPtr := s\<rparr>) n)) =
        curDirPtr (snd (adfChangeDir L (w\<lparr>curDirPtr := s\<rparr>) n)))"

lemma same_tree_update [simp]:
  "same_tree L (v\<lparr>curDirPtr := s\<rparr>) w = same_tree L v w"
  "same_tree L v (w\<lparr>curDirPtr := s\<rparr>) = same_tree L v w"
  by (simp_all add: same_tree_def)

lemma adfChangeDir_update:
  assumes "nav_ok L" "adfChangeDir L v d = (rc, v')"
  shows "v' = v\<lparr>curDirPtr := curDirPtr v'\<rparr>"
proof -
  from assms obtain s where "snd (adfChangeDir L v d) = v\<lparr>curDirPtr := s\<rparr>"
    unfolding nav_ok_def by blast
  with assms(2) show ?thesis by simp
qed

lemma cur_id: "v\<lparr>curDirPtr := curDirPtr v\<rparr> = v"
  by (cases v) simp

lemma vol_id: "vol im = Some v \<Longrightarrow> im\<lparr>vol := Some v\<rparr> = im"
  by (cases im) simp

lemma same_tree_step:
  assumes "nav_ok L" "same_tree L v w" "curDirPtr v = curDirPtr w" "adfChangeDir L v d = (rc, v')"
  shows "adfChangeDir L w d = (rc, w\<lparr>curDirPtr := curDirPtr v'\<rparr>)"
proof -
  obtain rc2 w' where w: "adfChangeDir L w d = (rc2, w')" by (cases "adfChangeDir L w d")
  have "adfChangeDir L (v\<lparr>curDirPtr := curDirPtr v\<rparr>) d = (rc, v')"
    and "adfChangeDir L (w\<lparr>curDirPtr := curDirPtr v\<rparr>) d = (rc2, w')"
    using assms(3,4) w cur_id [of v] cur_id [of w] by metis+
  with assms(2) have "rc2 = rc" "curDirPtr w' = curDirPtr v'"
    unfolding same_tree_def by (metis fst_conv, metis snd_conv)
  with adfChangeDir_update [OF assms(1) w] w show ?thesis by simp
qed

lemma adf_walk_same_tree:
  assumes "nav_ok L" "same_tree L v w" "curDirPtr v = curDirPtr w" "adf_walk L v cs = (b, v', e)"
  shows "adf_walk L w cs = (b, w\<lparr>curDirPtr := curDirPtr v'\<rparr>, e)"
  using assms(2-)
proof (induction cs arbitrary: v w b v' e)
  case Nil
  then show ?case by simp
next
  case (Cons c cs)
  obtain rc v1 where cd: "adfChangeDir L v c = (rc, v1)" by (cases "adfChangeDir L v c")
  let ?w1 = "w\<lparr>curDirPtr := curDirPtr v1\<rparr>"
  have w1: "adfChangeDir L w c = (rc, ?w1)" by (rule same_tree_step [OF assms(1) Cons.prems(1,2) cd])
  have "same_tree L v1 ?w1"
    using Cons.prems(1) adfChangeDir_update [OF assms(1) cd] by (metis same_tree_update)
  from Cons.IH [OF this] Cons.prems(3) cd w1 show ?case by (auto split: if_splits prod.splits)
qed

subsection \<open>Into the directory of a file and back\<close>

lemma enter_dir_absolute:
  assumes "names cs" "heap im = []" "vol im = Some v" "dirpath p = abspath cs"
    and "adf_walk L (adfToRootDir L v) cs = (b, w, e)" "length (abspath e) < ADFIMAGE_MAX_PATH"
  shows "enter_dir L p im = Some (b, Some (cwd im), im\<lparr>vol := Some w, cwd := abspath e\<rparr>)"
  using adfimage_chdir_absolute [OF assms(1,3,2), of L] assms
  by (simp add: enter_dir_def)

lemma same_volume_tree: "same_volume v w \<Longrightarrow> same_tree L v w"
  by (cases v; cases w) (simp add: same_volume_def same_tree_def)

lemma same_volume_cur: "same_volume v w \<Longrightarrow> w\<lparr>curDirPtr := curDirPtr v\<rparr> = v"
  by (cases v; cases w) (simp add: same_volume_def)

text \<open>
  The way back from another directory of the same volume leads to \<open>homed\<close>, and from one that
  has the same directories to the same place of that volume.
\<close>

lemma go_back_same_volume:
  assumes "nav_ok L" "cwd_ok im" "vol im = Some v" "heap im = []" "same_volume v w"
  shows "go_back L (Some (cwd im)) (im\<lparr>cwd := c, vol := Some w\<rparr>) = Some (homed L im)"
proof -
  have swap: "im\<lparr>cwd := c, vol := Some w\<rparr> = im\<lparr>vol := Some w, cwd := c\<rparr>" by simp
  show ?thesis using chdir_home [OF assms, of c] unfolding swap by (auto simp: go_back_def)
qed

lemma go_back_same_tree:
  assumes "nav_ok L" "cwd_ok im" "vol im = Some v" "heap im = []" "vol (homed L im) = Some u" "same_tree L v w"
  shows "go_back L (Some (cwd im)) (im\<lparr>cwd := c, vol := Some w\<rparr>) =
    Some ((homed L im)\<lparr>vol := Some (w\<lparr>curDirPtr := curDirPtr u\<rparr>)\<rparr>)"
proof -
  from assms(2) obtain ds where ds: "names ds" "cwd im = abspath ds" "length (abspath ds) < ADFIMAGE_MAX_PATH"
    by (rule cwd_okE)
  obtain b x e where walk: "adf_walk L (adfToRootDir L v) ds = (b, x, e)"
    by (cases "adf_walk L (adfToRootDir L v) ds")
  have home: "homed L im = im\<lparr>vol := Some x, cwd := abspath e\<rparr>" by (rule homed_walk [OF ds assms(3,4) walk])
  have "same_tree L (adfToRootDir L v) (adfToRootDir L w)"
    and "curDirPtr (adfToRootDir L v) = curDirPtr (adfToRootDir L w)"
    using assms(1,6) by (simp_all add: nav_ok_def same_tree_def)
  from adf_walk_same_tree [OF assms(1) this walk]
  have "adf_walk L (adfToRootDir L w) ds = (b, w\<lparr>curDirPtr := curDirPtr u\<rparr>, e)"
    using assms(1,5) home by (simp add: nav_ok_def)
  with adfimage_chdir_absolute [OF ds(1), of "im\<lparr>cwd := c, vol := Some w\<rparr>" w L] ds(2,3) assms(4) home
    length_abspath_entered [OF walk]
  show ?thesis by (simp add: go_back_def)
qed

subsection \<open>What the code relies on when it reads and writes files\<close>

text \<open>
  \<open>content v d n\<close> is what the volume \<open>v\<close> stores for the file \<open>n\<close> of the directory in sector
  \<open>d\<close>, if it is there and its access bits let it be read. \<open>files_ok\<close> is ADFlib's contract for
  reading: a file opens if and only if that is so; a seek within the file works; a read returns the bytes from there, at most as many as
  asked for; none of it changes the volume.
\<close>

type_synonym 'd content = "'d AdfVolume \<Rightarrow> int \<Rightarrow> string \<Rightarrow> char list option"

definition opens_for_reading ::
  "('d, 'f) adflib \<Rightarrow> 'd AdfVolume \<Rightarrow> 'f \<Rightarrow> char list \<Rightarrow> bool" where
  "opens_for_reading L v f bs \<longleftrightarrow>
     fileHdr_byteSize L f = word_of_nat (length bs) \<and>
     adfFileClose L v (Some f) = v \<and>
     (\<forall>off n. unat off \<le> length bs \<longrightarrow>
        (\<exists>rc f1 f2. adfFileSeek L v f off = (rc, f1, v) \<and> rc_ok L rc \<and>
           adfFileRead L v f1 n = (take (unat n) (drop (unat off) bs), f2, v) \<and>
           adfFileClose L v (Some f2) = v))"

definition files_ok :: "('d, 'f) adflib \<Rightarrow> 'd content \<Rightarrow> bool" where
  "files_ok L content \<longleftrightarrow>
     (\<forall>v s. content (v\<lparr>curDirPtr := s\<rparr>) = content v) \<and>
     (\<forall>v n. case content v (curDirPtr v) n of
        None \<Rightarrow> adfFileOpen L v n ADF_FILE_MODE_READ = (None, v)
      | Some bs \<Rightarrow> (\<exists>f. adfFileOpen L v n ADF_FILE_MODE_READ = (Some f, v) \<and> opens_for_reading L v f bs))"

text \<open>
  \<open>writes_ok\<close> is the contract for writing to a file that ADFlib opens for writing (it need not:
  the volume may be read-only, or the file protected): it replaces the bytes from the offset on
  by as many of the given ones as the volume has room for (\<open>k\<close>), and touches no other file and
  no directory.
\<close>

definition splice :: "char list \<Rightarrow> nat \<Rightarrow> char list \<Rightarrow> char list" where
  "splice bs off new = take off bs @ new @ drop (off + length new) bs"

definition writes_ok :: "('d, 'f) adflib \<Rightarrow> 'd content \<Rightarrow> bool" where
  "writes_ok L content \<longleftrightarrow>
     (\<forall>v n bs f v1 off new.
        content v (curDirPtr v) n = Some bs \<and> adfFileOpen L v n ADF_FILE_MODE_WRITE = (Some f, v1) \<and>
        unat off \<le> length bs \<longrightarrow>
        (\<exists>rc f1 v2 k f2 v3 v4.
           adfFileSeek L v1 f off = (rc, f1, v2) \<and> rc_ok L rc \<and>
           adfFileWrite L v2 f1 new = (k, f2, v3) \<and> unat k \<le> length new \<and>
           adfFileClose L v3 (Some f2) = v4 \<and>
           same_tree L v v4 \<and> curDirPtr v4 = curDirPtr v \<and>
           (\<forall>d m. content v4 d m =
              (if d = curDirPtr v \<and> m = n then Some (splice bs (unat off) (take (unat k) new))
               else content v d m))))"

lemma splice_read: "off \<le> length bs \<Longrightarrow> take (length new) (drop off (splice bs off new)) = new"
  by (simp add: splice_def)

lemma length_splice: "off \<le> length bs \<Longrightarrow> length (splice bs off new) = max (length bs) (off + length new)"
  by (auto simp: splice_def max_def)

subsection \<open>Reading\<close>

lemma files_ok_open:
  assumes "files_ok L content" "content v (curDirPtr v) n = Some bs"
  shows "\<exists>f. adfFileOpen L v n ADF_FILE_MODE_READ = (Some f, v) \<and> opens_for_reading L v f bs"
proof -
  from assms(1) have "case content v (curDirPtr v) n of
        None \<Rightarrow> adfFileOpen L v n ADF_FILE_MODE_READ = (None, v)
      | Some bs \<Rightarrow> (\<exists>f. adfFileOpen L v n ADF_FILE_MODE_READ = (Some f, v) \<and> opens_for_reading L v f bs)"
    unfolding files_ok_def by blast
  with assms(2) show ?thesis by simp
qed

lemma files_ok_missing:
  assumes "files_ok L content" "content v (curDirPtr v) n = None"
  shows "adfFileOpen L v n ADF_FILE_MODE_READ = (None, v)"
proof -
  from assms(1) have "case content v (curDirPtr v) n of
        None \<Rightarrow> adfFileOpen L v n ADF_FILE_MODE_READ = (None, v)
      | Some bs \<Rightarrow> (\<exists>f. adfFileOpen L v n ADF_FILE_MODE_READ = (Some f, v) \<and> opens_for_reading L v f bs)"
    unfolding files_ok_def by blast
  with assms(2) show ?thesis by simp
qed

lemma content_same_volume: "files_ok L content \<Longrightarrow> same_volume v w \<Longrightarrow> content w = content v"
  using same_volume_cur [of w v] same_volume_sym [of v w] unfolding files_ok_def by metis

lemma seek_and_read_ok:
  assumes "opens_for_reading L v f bs" "unat (ucast offset :: 32 word) \<le> length bs" "length bs < 2 ^ 31"
    and "r = take (unat (ucast sz :: 32 word)) (drop (unat (ucast offset :: 32 word)) bs)"
    and "length r \<le> length buffer"
  shows "\<exists>f2. seek_and_read L v f sz offset buffer = Some (int (length r), r @ drop (length r) buffer, f2, v) \<and>
    adfFileClose L v (Some f2) = v"
proof -
  from assms(1,2) obtain rc f1 f2 where "adfFileSeek L v f (ucast offset) = (rc, f1, v)" "rc_ok L rc"
    "adfFileRead L v f1 (ucast sz) = (r, f2, v)" "adfFileClose L v (Some f2) = v"
    unfolding opens_for_reading_def assms(4) by blast
  moreover have "sint (word_of_nat (length r) :: 32 word) = int (length r)"
    using assms(3,4) by (intro sint_word_of_nat) simp
  ultimately show ?thesis using assms(5) by (simp add: seek_and_read_def store_bytes_def)
qed

text \<open>
  The bytes a read at the 64-bit \<open>offset\<close> of \<open>sz\<close> bytes gives: both are cut to 32 bits.
\<close>

definition read_range :: "char list \<Rightarrow> 64 word \<Rightarrow> 64 word \<Rightarrow> char list" where
  "read_range bs sz offset =
     take (unat (ucast sz :: 32 word)) (drop (unat (ucast offset :: 32 word)) bs)"

lemma unat_ucast_32: "unat (ucast (x :: 64 word) :: 32 word) = unat x mod 2 ^ 32"
  by (simp add: unsigned_ucast_eq take_bit_eq_mod)

lemma read_range_small:
  "unat sz < 2 ^ 32 \<Longrightarrow> unat offset < 2 ^ 32 \<Longrightarrow> read_range bs sz offset = take (unat sz) (drop (unat offset) bs)"
  by (simp add: read_range_def unat_ucast_32)

text \<open>
  Reading an existing file by absolute path: the bytes go to the front of the buffer, their
  number is the result, and the image is back at \<open>cwd\<close>.
\<close>

lemma read_existing:
  assumes "nav_ok L" "files_ok L content" "cwd_ok im" "heap im = []" "vol im = Some v"
    and "names cs" "is_name c" "length (abspath cs) < ADFIMAGE_MAX_PATH"
    and "adf_walk L (adfToRootDir L v) cs = (True, w, cs)"
    and "content w (curDirPtr w) c = Some bs" "length bs < 2 ^ 31"
    and "unat (ucast offset :: 32 word) \<le> length bs" "length (read_range bs sz offset) \<le> length buffer"
  shows "adfimage_read L (abspath (cs @ [c])) buffer sz offset im =
    Some (int (length (read_range bs sz offset)),
      read_range bs sz offset @ drop (length (read_range bs sz offset)) buffer, homed L im)"
proof -
  from files_ok_open [OF assms(2,10)] obtain f where f: "adfFileOpen L w c ADF_FILE_MODE_READ = (Some f, w)"
    "opens_for_reading L w f bs" by blast
  from seek_and_read_ok [OF f(2) assms(12,11) read_range_def assms(13)] obtain f2 where
    "seek_and_read L w f sz offset buffer = Some (int (length (read_range bs sz offset)),
      read_range bs sz offset @ drop (length (read_range bs sz offset)) buffer, f2, w)"
    "adfFileClose L w (Some f2) = w" by blast
  moreover have "same_volume v w"
    using adf_walk_same [OF assms(1,9)] adfToRootDir_same [OF assms(1), of v]
    by (rule same_volume_trans [rotated])
  then have "go_back L (Some (cwd im)) (im\<lparr>cwd := abspath cs, vol := Some w\<rparr>) = Some (homed L im)"
    by (rule go_back_same_volume [OF assms(1,3,5,4)])
  ultimately show ?thesis
    using assms(4,6,7) f(1) enter_dir_absolute [OF assms(6,4,5) _ assms(9,8)]
    by (simp add: adfimage_read_def path_simps)
qed

text \<open>
  A file that is not there: \<open>-ENOENT\<close>, and the working directory is not restored. If the
  directory exists the image is left in it, and otherwise where the walk stopped.
\<close>

lemma read_missing:
  assumes "files_ok L content" "heap im = []" "vol im = Some v"
    and "names cs" "is_name c" "adf_walk L (adfToRootDir L v) cs = (b, w, e)"
    and "length (abspath e) < ADFIMAGE_MAX_PATH"
    and "b \<Longrightarrow> content w (curDirPtr w) c = None"
  shows "adfimage_read L (abspath (cs @ [c])) buffer sz offset im =
    Some (- ENOENT, buffer, im\<lparr>vol := Some w, cwd := abspath e\<rparr>)"
proof -
  have "adfFileOpen L w c ADF_FILE_MODE_READ = (None, w)" if b
    using files_ok_missing [OF assms(1) assms(8)] that .
  then show ?thesis
    using assms(2,4,5) enter_dir_absolute [OF assms(4,2,3) _ assms(6,7)]
    by (auto simp: adfimage_read_def path_simps)
qed

text \<open>The high 32 bits of size and offset have no effect, on reading, writing or truncating.\<close>

lemma read_ignores_high_bits:
  assumes "ucast sz = (ucast sz' :: 32 word)" "ucast offset = (ucast offset' :: 32 word)"
  shows "adfimage_read L p buffer sz offset im = adfimage_read L p buffer sz' offset' im"
proof -
  have "seek_and_read L v f sz offset b = seek_and_read L v f sz' offset' b" for v f b
    unfolding seek_and_read_def assms ..
  then show ?thesis unfolding adfimage_read_def by presburger
qed

lemma write_ignores_high_bits:
  assumes "ucast sz = (ucast sz' :: 32 word)" "ucast offset = (ucast offset' :: 32 word)"
  shows "adfimage_write L p buffer sz offset im = adfimage_write L p buffer sz' offset' im"
proof -
  have "seek_and_write L v f sz offset b = seek_and_write L v f sz' offset' b" for v f b
    unfolding seek_and_write_def assms ..
  then show ?thesis unfolding adfimage_write_def by presburger
qed

lemma truncate_ignores_high_bits:
  assumes "ucast sz = (ucast sz' :: 32 word)"
  shows "adfimage_file_truncate L p sz im = adfimage_file_truncate L p sz' im"
  unfolding adfimage_file_truncate_def assms ..

subsection \<open>Writing\<close>

lemma seek_and_write_ok:
  assumes "writes_ok L content" "content v (curDirPtr v) n = Some bs"
    and "adfFileOpen L v n ADF_FILE_MODE_WRITE = (Some f, v1)" "unat (ucast offset :: 32 word) \<le> length bs"
    and "unat (ucast sz :: 32 word) \<le> length buffer" "unat (ucast sz :: 32 word) < 2 ^ 31"
    and "new = take (unat (ucast sz :: 32 word)) buffer"
  shows "\<exists>k f2 v3. k \<le> length new \<and>
     seek_and_write L v1 f sz offset buffer = Some (int k, f2, v3) \<and>
     (let v4 = adfFileClose L v3 (Some f2) in
       same_tree L v v4 \<and> curDirPtr v4 = curDirPtr v \<and>
       (\<forall>d m. content v4 d m =
          (if d = curDirPtr v \<and> m = n then Some (splice bs (unat (ucast offset :: 32 word)) (take k new))
           else content v d m)))"
proof -
  from assms(1-4) obtain rc f1 v2 k f2 v3 v4 where
    h: "adfFileSeek L v1 f (ucast offset) = (rc, f1, v2)" "rc_ok L rc"
    "adfFileWrite L v2 f1 new = (k, f2, v3)" "unat k \<le> length new"
    "adfFileClose L v3 (Some f2) = v4" "same_tree L v v4" "curDirPtr v4 = curDirPtr v"
    "\<forall>d m. content v4 d m =
       (if d = curDirPtr v \<and> m = n then Some (splice bs (unat (ucast offset :: 32 word)) (take (unat k) new))
        else content v d m)"
    unfolding writes_ok_def by metis
  have "unat k < 2 ^ 31" using h(4) assms(6,7) by simp
  then have "sint k = int (unat k)" by (rule sint_small)
  with h assms(5,7) have "seek_and_write L v1 f sz offset buffer = Some (int (unat k), f2, v3)"
    by (simp add: seek_and_write_def Let_def not_less)
  with h show ?thesis by (auto simp: Let_def)
qed

text \<open>
  Writing an existing file by absolute path: the number of bytes written is the result, the
  file holds them at the offset, no other file changes, and the image is back at \<open>cwd\<close>.
\<close>

lemma write_existing:
  assumes "nav_ok L" "writes_ok L content" "cwd_ok im" "heap im = []" "vol im = Some v"
    and "names cs" "is_name c" "length (abspath cs) < ADFIMAGE_MAX_PATH"
    and "adf_walk L (adfToRootDir L v) cs = (True, w, cs)"
    and "adfFileOpen L w c ADF_FILE_MODE_WRITE = (Some f, v1)" "content w (curDirPtr w) c = Some bs"
    and "unat (ucast offset :: 32 word) \<le> length bs"
    and "unat (ucast sz :: 32 word) \<le> length buffer" "unat (ucast sz :: 32 word) < 2 ^ 31"
    and "vol (homed L im) = Some u"
  shows "\<exists>k v'. adfimage_write L (abspath (cs @ [c])) buffer sz offset im =
      Some (int k, (homed L im)\<lparr>vol := Some (v'\<lparr>curDirPtr := curDirPtr u\<rparr>)\<rparr>) \<and>
    k \<le> unat (ucast sz :: 32 word) \<and> same_tree L v v' \<and>
    (\<forall>d m. content v' d m =
      (if d = curDirPtr w \<and> m = c
       then Some (splice bs (unat (ucast offset :: 32 word)) (take k buffer)) else content w d m))"
proof -
  let ?new = "take (unat (ucast sz :: 32 word)) buffer"
  from seek_and_write_ok [OF assms(2,11,10,12,13,14) refl] obtain k f2 v3 where
    h: "k \<le> length ?new" "seek_and_write L v1 f sz offset buffer = Some (int k, f2, v3)"
    "same_tree L w (adfFileClose L v3 (Some f2))"
    "\<forall>d m. content (adfFileClose L v3 (Some f2)) d m =
      (if d = curDirPtr w \<and> m = c
       then Some (splice bs (unat (ucast offset :: 32 word)) (take k ?new)) else content w d m)"
    by (auto simp: Let_def)
  let ?v4 = "adfFileClose L v3 (Some f2)"
  have "same_volume v w"
    using adf_walk_same [OF assms(1,9)] adfToRootDir_same [OF assms(1), of v]
    by (rule same_volume_trans [rotated])
  then have tree: "same_tree L v ?v4"
    using h(3) same_volume_tree [where L = L] by (fastforce simp: same_tree_def)
  have "adfimage_write L (abspath (cs @ [c])) buffer sz offset im =
      Some (int k, (homed L im)\<lparr>vol := Some (?v4\<lparr>curDirPtr := curDirPtr u\<rparr>)\<rparr>)"
    using assms(4,6,7,10) h(2) enter_dir_absolute [OF assms(6,4,5) _ assms(9,8)]
      go_back_same_tree [OF assms(1,3,5,4,15) tree]
    by (simp add: adfimage_write_def path_simps)
  moreover have "take k ?new = take k buffer" using h(1) by simp
  ultimately show ?thesis using h(1,4) tree by (intro exI [of _ k] exI [of _ ?v4]) simp
qed

lemma in_sync_same_tree:
  assumes "nav_ok L" "in_sync L im" "vol im = Some v" "same_tree L v v'"
  shows "in_sync L (im\<lparr>vol := Some (v'\<lparr>curDirPtr := curDirPtr v\<rparr>)\<rparr>)"
proof -
  obtain ds where im: "names ds" "cwd im = abspath ds" "length (cwd im) < ADFIMAGE_MAX_PATH"
      "adf_walk L (adfToRootDir L v) ds = (True, v, ds)"
    using assms(2,3) by (auto simp: in_sync_def)
  have "same_tree L (adfToRootDir L v) (adfToRootDir L v')"
    and "curDirPtr (adfToRootDir L v) = curDirPtr (adfToRootDir L v')"
    using assms(1,4) by (simp_all add: nav_ok_def same_tree_def)
  from adf_walk_same_tree [OF assms(1) this im(4)] im(1-3) assms(1) show ?thesis
    by (intro in_syncI [of _ "v'\<lparr>curDirPtr := curDirPtr v\<rparr>" ds]) (simp_all add: nav_ok_def)
qed

lemma walk_root_same_tree:
  assumes "nav_ok L" "same_tree L v v'" "adf_walk L (adfToRootDir L v) cs = (b, w, e)"
  shows "adf_walk L (adfToRootDir L v') cs = (b, v'\<lparr>curDirPtr := curDirPtr w\<rparr>, e)"
proof -
  have "same_tree L (adfToRootDir L v) (adfToRootDir L v')"
    and "curDirPtr (adfToRootDir L v) = curDirPtr (adfToRootDir L v')"
    using assms(1,2) by (simp_all add: nav_ok_def same_tree_def)
  from adf_walk_same_tree [OF assms(1) this assms(3)] assms(1) show ?thesis by (simp add: nav_ok_def)
qed

text \<open>What was written is read back, by the same path and offset.\<close>

lemma write_then_read:
  assumes "nav_ok L" "files_ok L content" "writes_ok L content" "cwd_ok im" "heap im = []" "vol im = Some v"
    and "names cs" "is_name c" "length (abspath cs) < ADFIMAGE_MAX_PATH"
    and "adf_walk L (adfToRootDir L v) cs = (True, w, cs)"
    and "adfFileOpen L w c ADF_FILE_MODE_WRITE = (Some f, v1)" "content w (curDirPtr w) c = Some bs"
    and "unat offset \<le> length bs" "length bs < 2 ^ 31"
    and "unat sz \<le> length buffer" "unat offset + unat sz < 2 ^ 31"
  shows "\<exists>k im'. adfimage_write L (abspath (cs @ [c])) buffer sz offset im = Some (int k, im') \<and>
    k \<le> unat sz \<and> cwd im' = cwd (homed L im) \<and> in_sync L im' \<and>
    (\<forall>buffer'. k \<le> length buffer' \<longrightarrow>
      adfimage_read L (abspath (cs @ [c])) buffer' (word_of_nat k) offset im' =
        Some (int k, take k buffer @ drop k buffer', im'))"
proof -
  have small: "unat (ucast sz :: 32 word) = unat sz" "unat (ucast offset :: 32 word) = unat offset"
    using assms(16) by (simp_all add: unat_ucast_32)
  obtain u where u: "vol (homed L im) = Some u" "same_volume v u" by (rule homed_vol [OF assms(1,4,6,5)])
  from write_existing [OF assms(1,3-12) _ _ _ u(1), of offset sz buffer] assms(13,15,16) small obtain k v' where
    h: "adfimage_write L (abspath (cs @ [c])) buffer sz offset im =
      Some (int k, (homed L im)\<lparr>vol := Some (v'\<lparr>curDirPtr := curDirPtr u\<rparr>)\<rparr>)"
    "k \<le> unat sz" "same_tree L v v'"
    "content v' (curDirPtr w) c = Some (splice bs (unat offset) (take k buffer))"
    by auto
  let ?v1 = "v'\<lparr>curDirPtr := curDirPtr u\<rparr>" and ?w1 = "v'\<lparr>curDirPtr := curDirPtr w\<rparr>"
  let ?im' = "(homed L im)\<lparr>vol := Some ?v1\<rparr>" and ?bs = "splice bs (unat offset) (take k buffer)"
  have "same_tree L u v'" using h(3) same_volume_tree [OF u(2), where L = L] by (simp add: same_tree_def)
  then have sync: "in_sync L ?im'"
    by (rule in_sync_same_tree [OF assms(1) homed_in_sync [OF assms(1,4,6,5)] u(1)])
  have heap: "heap ?im' = []" using homed_heap [OF assms(4-6)] by simp
  have "adf_walk L (adfToRootDir L v') cs = (True, ?w1, cs)"
    by (rule walk_root_same_tree [OF assms(1) h(3) assms(10)])
  then have walk: "adf_walk L (adfToRootDir L ?v1) cs = (True, ?w1, cs)"
    using assms(1) by (simp add: nav_ok_def)
  have new: "length (take k buffer) = k" using h(2) assms(15) by simp
  have content: "content ?w1 (curDirPtr ?w1) c = Some ?bs"
    using assms(2) h(4) by (simp add: files_ok_def)
  have len: "length ?bs < 2 ^ 31"
    using assms(13,14,16) h(2) new by (simp add: length_splice)
  have "unat (word_of_nat k :: 64 word) = k"
    using h(2) assms(16) by (simp add: unsigned_of_nat take_bit_nat_eq_self)
  then have range: "read_range ?bs (word_of_nat k) offset = take k buffer"
    using h(2) assms(13,16) new splice_read [of "unat offset" bs "take k buffer"]
    by (subst read_range_small) simp_all
  have off: "unat (ucast offset :: 32 word) \<le> length ?bs"
    using small assms(13) new by (simp add: length_splice)
  have "homed L ?im' = ?im'" by (rule homed_id [OF assms(1) sync heap])
  then have read: "adfimage_read L (abspath (cs @ [c])) buffer' (word_of_nat k) offset ?im' =
        Some (int k, take k buffer @ drop k buffer', ?im')" if "k \<le> length buffer'" for buffer'
    using read_existing [OF assms(1,2) in_sync_cwd_ok [OF sync] heap _ assms(7-9) walk content len off,
        of "word_of_nat k" buffer'] that new by (simp add: range)
  show ?thesis
    using h(1,2) sync read by (intro exI [of _ k] exI [of _ ?im']) simp
qed

subsection \<open>Truncating\<close>

text \<open>
  The contract for shrinking a file that opens for writing: the handle stays good while the
  current directory moves, and the file keeps its first bytes.
\<close>

definition truncates_ok :: "('d, 'f) adflib \<Rightarrow> 'd content \<Rightarrow> bool" where
  "truncates_ok L content \<longleftrightarrow>
     (\<forall>v n bs sz f v1. content v (curDirPtr v) n = Some bs \<and>
        adfFileOpen L v n ADF_FILE_MODE_WRITE = (Some f, v1) \<and> unat sz \<le> length bs \<longrightarrow>
        same_tree L v v1 \<and> curDirPtr v1 = curDirPtr v \<and>
        (\<forall>s. \<exists>rc f2 v2 v3.
           adfFileTruncate L (v1\<lparr>curDirPtr := s\<rparr>) f sz = (rc, f2, v2) \<and> rc_ok L rc \<and>
           adfFileClose L v2 (Some f2) = v3 \<and> same_tree L v v3 \<and> curDirPtr v3 = s \<and>
           (\<forall>d m. content v3 d m =
              (if d = curDirPtr v \<and> m = n then Some (take (unat sz) bs) else content v d m))))"

lemma truncate_existing:
  assumes "nav_ok L" "truncates_ok L content" "cwd_ok im" "heap im = []" "vol im = Some v"
    and "names cs" "is_name c" "length (abspath cs) < ADFIMAGE_MAX_PATH"
    and "adf_walk L (adfToRootDir L v) cs = (True, w, cs)"
    and "adfFileOpen L w c ADF_FILE_MODE_WRITE = (Some f, v1)"
    and "content w (curDirPtr w) c = Some bs" "unat (ucast sz :: 32 word) \<le> length bs"
    and "vol (homed L im) = Some u"
  shows "\<exists>v'. adfimage_file_truncate L (abspath (cs @ [c])) sz im = Some (0, (homed L im)\<lparr>vol := Some v'\<rparr>) \<and>
    curDirPtr v' = curDirPtr u \<and> same_tree L v v' \<and>
    (\<forall>d m. content v' d m =
      (if d = curDirPtr w \<and> m = c then Some (take (unat (ucast sz :: 32 word)) bs) else content w d m))"
proof -
  from assms(2,10-12) have f: "same_tree L w v1" "curDirPtr v1 = curDirPtr w"
    and trunc: "\<exists>rc f2 v2 v3. adfFileTruncate L (v1\<lparr>curDirPtr := curDirPtr u\<rparr>) f (ucast sz) = (rc, f2, v2) \<and>
      rc_ok L rc \<and> adfFileClose L v2 (Some f2) = v3 \<and> same_tree L w v3 \<and> curDirPtr v3 = curDirPtr u \<and>
      (\<forall>d m. content v3 d m =
        (if d = curDirPtr w \<and> m = c then Some (take (unat (ucast sz :: 32 word)) bs) else content w d m))"
    unfolding truncates_ok_def by blast+
  from trunc obtain rc f2 v2 v3 where
    t: "adfFileTruncate L (v1\<lparr>curDirPtr := curDirPtr u\<rparr>) f (ucast sz) = (rc, f2, v2)" "rc_ok L rc"
    "adfFileClose L v2 (Some f2) = v3" "same_tree L w v3" "curDirPtr v3 = curDirPtr u"
    "\<forall>d m. content v3 d m =
        (if d = curDirPtr w \<and> m = c then Some (take (unat (ucast sz :: 32 word)) bs) else content w d m)"
    by blast
  have vw: "same_tree L v w"
    using adf_walk_same [OF assms(1,9)] adfToRootDir_same [OF assms(1), of v]
    by (blast intro: same_volume_tree same_volume_trans)
  then have tree: "same_tree L v v1" "same_tree L v v3"
    using f(1) t(4) by (simp_all add: same_tree_def)
  have "adfimage_file_open L (abspath (cs @ [c])) ADF_FILE_MODE_WRITE im =
      Some (Some f, (homed L im)\<lparr>vol := Some (v1\<lparr>curDirPtr := curDirPtr u\<rparr>)\<rparr>)"
    using assms(4,6,7,10) enter_dir_absolute [OF assms(6,4,5) _ assms(9,8)]
      go_back_same_tree [OF assms(1,3,5,4,13) tree(1)]
    by (simp add: adfimage_file_open_def path_simps)
  then have "adfimage_file_truncate L (abspath (cs @ [c])) sz im = Some (0, (homed L im)\<lparr>vol := Some v3\<rparr>)"
    using t(1-3) by (simp add: adfimage_file_truncate_def adfimage_file_close_def)
  with t(5,6) tree(2) show ?thesis by blast
qed

subsection \<open>Reading a link\<close>

lemma length_strncpy: "n \<le> length buffer \<Longrightarrow> length (strncpy buffer src n) = length buffer"
  by (simp add: strncpy_def)

text \<open>The copied text is terminated if and only if it is shorter than the limit.\<close>

lemma strncpy_text:
  assumes "NUL \<notin> set src"
  shows "if length src < n then cstr (strncpy buffer src n) = src
    else take n (strncpy buffer src n) = take n src \<and> NUL \<notin> set (take n (strncpy buffer src n))"
proof (cases "length src < n")
  case True
  then obtain m where "n - length src = Suc m" "m \<le> n" by (metis Suc_diff_Suc diff_le_self Suc_leD)
  then have "take n (src @ replicate n NUL) = src @ NUL # replicate m NUL"
    using True by simp
  then have "strncpy buffer src n = src @ NUL # (replicate m NUL @ drop n buffer)"
    by (simp add: strncpy_def)
  with assms True show ?thesis by simp
next
  case False
  then have "take n (strncpy buffer src n) = take n src" by (simp add: strncpy_def)
  with False assms show ?thesis by (auto dest: in_set_takeD)
qed

lemma readlink_soft:
  assumes "nav_ok L" "cwd_ok im" "heap im = []" "vol im = Some v"
    and "names cs" "is_name c" "length (abspath cs) < ADFIMAGE_MAX_PATH"
    and "adf_walk L (adfToRootDir L v) cs = (True, w, cs)"
    and "adfReadEntryBlock L w (curDirPtr w) = (rc, parent)" "rc_ok L rc"
    and "adfNameToEntryBlk L w (b_hashTable parent) c = (s, entry)" "s \<noteq> - 1"
    and "b_secType entry = ADF_ST_LSOFT (K L)" "len_max \<le> length buffer"
  shows "adfimage_readlink L (abspath (cs @ [c])) buffer len_max im =
    Some (0, strncpy buffer (b_realName entry) len_max, homed L im)"
proof -
  have "same_volume v w"
    using adf_walk_same [OF assms(1,8)] adfToRootDir_same [OF assms(1), of v]
    by (rule same_volume_trans [rotated])
  then have "go_back L (Some (cwd im)) (im\<lparr>cwd := abspath cs, vol := Some w\<rparr>) = Some (homed L im)"
    by (rule go_back_same_volume [OF assms(1,2,4,3)])
  moreover have "im\<lparr>cwd := abspath cs, vol := Some w\<rparr> = im\<lparr>vol := Some w, cwd := abspath cs\<rparr>" by simp
  ultimately show ?thesis
    using assms(3,5,6,9-14) enter_dir_absolute [OF assms(5,3,4) _ assms(8,7)]
    by (simp add: adfimage_readlink_def link_text_def path_simps)
qed

subsection \<open>Properties\<close>


text \<open>
  C15: A read of an existing, readable file of less than \<open>2 ^ 31\<close> bytes in a directory whose path fits
  the buffer of \<open>cwd\<close>, from an offset within the file and of a size below \<open>2 ^ 32\<close>, returns the number of bytes between the offset and the end of the file, at most the size
  asked for; these bytes are at the front of the buffer and the rest of the buffer is
  untouched. It is enough for this that the buffer has room for the bytes there are. The image
  is restored if its two working directories agreed; if they did not (as after \<open>getattr\<close>
  in a subdirectory), the read has changed to \<open>cwd\<close> and they do now.
\<close>

theorem read_returns_content:
  assumes "nav_ok L" "files_ok L content" "cwd_ok im" "heap im = []" "vol im = Some v"
    and "names cs" "is_name c" "length (abspath cs) < ADFIMAGE_MAX_PATH"
    and "adf_walk L (adfToRootDir L v) cs = (True, w, cs)"
    and "content w (curDirPtr w) c = Some bs" "length bs < 2 ^ 31"
    and "unat sz < 2 ^ 32" "unat offset \<le> length bs"
    and "n = min (unat sz) (length bs - unat offset)" "n \<le> length buffer"
  shows "adfimage_read L (abspath (cs @ [c])) buffer sz offset im =
      Some (int n, take n (drop (unat offset) bs) @ drop n buffer, homed L im) \<and>
    in_sync L (homed L im) \<and> (in_sync L im \<longrightarrow> homed L im = im)"
proof -
  have off: "unat offset < 2 ^ 32" using assms(11,13) by simp
  have r: "read_range bs sz offset = take n (drop (unat offset) bs)"
    using read_range_small [OF assms(12) off, of bs] assms(14) by (simp add: min_def)
  moreover have "length (take n (drop (unat offset) bs)) = n" using assms(14) by simp
  moreover have "unat (ucast offset :: 32 word) \<le> length bs"
    using off assms(13) by (simp add: unat_ucast_32)
  ultimately show ?thesis
    using read_existing [OF assms(1-11), of offset sz buffer] assms(15) homed_agrees [OF assms(1,3,5,4)] by simp
qed

text \<open>
  C32: Reading a file that is not there, or below a directory that is not there, gives
  \<open>-ENOENT\<close> and leaves the buffer alone, but not the image: it stays in the directory, with
  \<open>cwd\<close>, where the walk stopped.
\<close>

theorem read_missing_file:
  assumes "files_ok L content" "heap im = []" "vol im = Some v"
    and "names cs" "is_name c" "adf_walk L (adfToRootDir L v) cs = (b, w, e)"
    and "length (abspath e) < ADFIMAGE_MAX_PATH"
    and "b \<longrightarrow> content w (curDirPtr w) c = None"
  shows "adfimage_read L (abspath (cs @ [c])) buffer sz offset im =
    Some (- ENOENT, buffer, im\<lparr>vol := Some w, cwd := abspath e\<rparr>)"
  using read_missing [OF assms(1-7)] assms(8) by blast

text \<open>
  C26: Truncating an existing file that ADFlib opens for writing, in a directory whose path fits the
  buffer of \<open>cwd\<close>, to a size of \<open>n\<close> bytes, where \<open>n mod 2 ^ 32\<close> is at most its length, reports success and keeps the first \<open>n mod 2 ^ 32\<close> bytes:
  a size of \<open>2 ^ 32\<close> empties the file. No other file changes. Of the image, only the volume
  changes and the change to \<open>cwd\<close> on the way back; the two working directories agree after it,
  and if they did before, both are what they were.
\<close>

theorem truncate_keeps_prefix:
  assumes "nav_ok L" "truncates_ok L content" "cwd_ok im" "heap im = []" "vol im = Some v"
    and "names cs" "is_name c" "length (abspath cs) < ADFIMAGE_MAX_PATH"
    and "adf_walk L (adfToRootDir L v) cs = (True, w, cs)"
    and "adfFileOpen L w c ADF_FILE_MODE_WRITE = (Some f, v1)"
    and "content w (curDirPtr w) c = Some bs" "unat sz mod 2 ^ 32 \<le> length bs"
  shows "\<exists>v'. adfimage_file_truncate L (abspath (cs @ [c])) sz im = Some (0, (homed L im)\<lparr>vol := Some v'\<rparr>) \<and>
    in_sync L ((homed L im)\<lparr>vol := Some v'\<rparr>) \<and>
    (in_sync L im \<longrightarrow> homed L im = im \<and> curDirPtr v' = curDirPtr v) \<and>
    (\<forall>d m. content v' d m =
      (if d = curDirPtr w \<and> m = c then Some (take (unat sz mod 2 ^ 32) bs) else content w d m))"
proof -
  obtain u where u: "vol (homed L im) = Some u" "same_volume v u" by (rule homed_vol [OF assms(1,3,5,4)])
  from truncate_existing [OF assms(1-11) _ u(1), of sz] assms(12) obtain v' where
    h: "adfimage_file_truncate L (abspath (cs @ [c])) sz im = Some (0, (homed L im)\<lparr>vol := Some v'\<rparr>)"
    "curDirPtr v' = curDirPtr u" "same_tree L v v'"
    "\<forall>d m. content v' d m =
      (if d = curDirPtr w \<and> m = c then Some (take (unat sz mod 2 ^ 32) bs) else content w d m)"
    unfolding unat_ucast_32 by blast
  have "same_tree L u v'" using h(3) same_volume_tree [OF u(2), where L = L] by (simp add: same_tree_def)
  from in_sync_same_tree [OF assms(1) homed_in_sync [OF assms(1,3,5,4)] u(1) this]
  have "in_sync L ((homed L im)\<lparr>vol := Some v'\<rparr>)" using h(2) cur_id [of v'] by metis
  moreover have "homed L im = im \<longrightarrow> u = v" using u(1) assms(5) by auto
  ultimately show ?thesis using h homed_agrees [OF assms(1,3,5,4)] by metis
qed

text \<open>
  C37: The high 32 bits of size and offset are ignored: reads and writes that agree in the low
  32 bits of both have the same result and effect.
\<close>

theorem size_and_offset_wrap:
  assumes "unat sz mod 2 ^ 32 = unat sz' mod 2 ^ 32" "unat offset mod 2 ^ 32 = unat offset' mod 2 ^ 32"
  shows "adfimage_read L p buffer sz offset im = adfimage_read L p buffer sz' offset' im \<and>
    adfimage_write L p buffer sz offset im = adfimage_write L p buffer sz' offset' im"
proof -
  have "ucast sz = (ucast sz' :: 32 word)" "ucast offset = (ucast offset' :: 32 word)"
    using assms by (simp_all add: unat_ucast_32 word_unat_eq_iff)
  then show ?thesis using read_ignores_high_bits write_ignores_high_bits by blast
qed

text \<open>
  C28: Reading a soft link, in a directory whose path fits the buffer of \<open>cwd\<close>, puts its target into the first \<open>len_max\<close> bytes of the buffer. The text
  is terminated if the target is shorter than \<open>len_max\<close>; otherwise it is cut and not terminated,
  and the call reports success all the same. The image is restored if its two working
  directories agreed; if they did not (as after \<open>getattr\<close> of a link in a subdirectory), the call
  has changed to \<open>cwd\<close> and they do now.
\<close>

theorem readlink_target:
  assumes "nav_ok L" "cwd_ok im" "heap im = []" "vol im = Some v"
    and "names cs" "is_name c" "length (abspath cs) < ADFIMAGE_MAX_PATH"
    and "adf_walk L (adfToRootDir L v) cs = (True, w, cs)"
    and "adfReadEntryBlock L w (curDirPtr w) = (rc, parent)" "rc_ok L rc"
    and "adfNameToEntryBlk L w (b_hashTable parent) c = (s, entry)" "s \<noteq> - 1"
    and "b_secType entry = ADF_ST_LSOFT (K L)" "len_max \<le> length buffer" "NUL \<notin> set (b_realName entry)"
  shows "\<exists>buf. adfimage_readlink L (abspath (cs @ [c])) buffer len_max im = Some (0, buf, homed L im) \<and>
    in_sync L (homed L im) \<and> (in_sync L im \<longrightarrow> homed L im = im) \<and>
    length buf = length buffer \<and> drop len_max buf = drop len_max buffer \<and>
    (if length (b_realName entry) < len_max then cstr buf = b_realName entry
     else take len_max buf = take len_max (b_realName entry) \<and> NUL \<notin> set (take len_max buf))"
proof -
  have "drop len_max (strncpy buffer (b_realName entry) len_max) = drop len_max buffer"
    using assms(14) by (simp add: strncpy_def)
  then show ?thesis
    using readlink_soft [OF assms(1-14)] length_strncpy [OF assms(14)] homed_agrees [OF assms(1,2,4,3)]
      strncpy_text [OF assms(15), of len_max buffer] by auto
qed

end
