(* ===== verification/Adf_Dir.thy ===== *)
theory Adf_Dir
  imports Adf_File
begin

section \<open>Creating, removing and renaming entries: \<open>src/src/adfimage.c\<close>\<close>

text \<open>
  The operations that change directories. Those that create or remove an entry go to the root
  of the volume, walk to the parent by a relative path, act, and go to the root again; none of
  them resets \<open>cwd\<close>, which therefore grows by the path they walked. Renaming rewrites the two
  directory paths with \<open>pathstr_fuse2amigados\<close> first, which may not return.
\<close>

subsection \<open>Creating and removing\<close>

text \<open>
  The part that \<open>adfimage_mkdir\<close>, \<open>adfimage_remove_entry\<close> and \<open>adfimage_create\<close> share, behind
  the check for an empty path: \<open>act\<close> is the call of ADFlib with the volume, the sector of the
  current directory and the entry's name. The result is \<open>None\<close> inside when the parent cannot
  be entered.
\<close>

definition change_entry ::
  "('d, 'f) adflib \<Rightarrow> ('d AdfVolume \<Rightarrow> int \<Rightarrow> string \<Rightarrow> int \<times> 'd AdfVolume) \<Rightarrow> string \<Rightarrow> 'd adfimage
    \<Rightarrow> (int option \<times> 'd adfimage) option" where
  "change_entry L act path_relative im = do {
     im1 \<leftarrow> to_root L im;
     let (dirpath_buf, im2) = dup path_relative im1;
     (ok, im3) \<leftarrow> adfimage_chdir L (dirname_ptr dirpath_buf) im2;
     if \<not> ok then Some (None, im3)
     else
       let (name_buf, im4) = dup path_relative im3
       in do {
         v \<leftarrow> vol im4;
         let (status, v') = act v (curDirPtr v) (basename_ptr name_buf);
         Some (Some status, im4\<lparr>vol := Some (adfToRootDir L v')\<rparr>)
       }
   }"

definition adfimage_mkdir ::
  "('d, 'f) adflib \<Rightarrow> string \<Rightarrow> int \<Rightarrow> 'd adfimage \<Rightarrow> (int \<times> 'd adfimage) option" where
  "adfimage_mkdir L newdirpath mode im =
     (let path_relative = pathstr_get_relative newdirpath in
      if path_relative = [] then Some (- EEXIST, im)
      else do {
        (status, im') \<leftarrow> change_entry L (adfCreateDir L) path_relative im;
        Some (case status of None \<Rightarrow> - ENOENT | Some rc \<Rightarrow> rc, im')
      })"

definition adfimage_remove_entry ::
  "('d, 'f) adflib \<Rightarrow> string \<Rightarrow> 'd adfimage \<Rightarrow> (int \<times> 'd adfimage) option" where
  "adfimage_remove_entry L rmpath im =
     (let path_relative = pathstr_get_relative rmpath in
      if path_relative = [] then Some (- EPERM, im)
      else do {
        (status, im') \<leftarrow> change_entry L (adfRemoveEntry L) path_relative im;
        Some (case status of None \<Rightarrow> - ENOENT | Some rc \<Rightarrow> rc, im')
      })"

definition adfimage_rmdir ::
  "('d, 'f) adflib \<Rightarrow> string \<Rightarrow> 'd adfimage \<Rightarrow> (int \<times> 'd adfimage) option" where
  "adfimage_rmdir L rmdirpath im = adfimage_remove_entry L rmdirpath im"

definition adfimage_unlink ::
  "('d, 'f) adflib \<Rightarrow> string \<Rightarrow> 'd adfimage \<Rightarrow> (int \<times> 'd adfimage) option" where
  "adfimage_unlink L unlinkpath im = adfimage_remove_entry L unlinkpath im"

definition adfimage_create ::
  "('d, 'f) adflib \<Rightarrow> string \<Rightarrow> int \<Rightarrow> 'd adfimage \<Rightarrow> (int \<times> 'd adfimage) option" where
  "adfimage_create L newfilepath mode im =
     (let path_relative = pathstr_get_relative newfilepath in
      if path_relative = [] then Some (- EINVAL, im)
      else do {
        (status, im') \<leftarrow> change_entry L (adfCreateFile L) path_relative im;
        Some (case status of None \<Rightarrow> - ENOENT | Some rc \<Rightarrow> if rc_ok L rc then 0 else - 1, im')
      })"

subsection \<open>Renaming\<close>

text \<open>A run that may be undefined, seen as one that may also not return.\<close>

definition returns :: "'a option \<Rightarrow> 'a cres option" where
  "returns r = Some (case r of None \<Rightarrow> UB | Some x \<Rightarrow> Ret x)"

text \<open>\<open>src_parent_sector\<close> and \<open>dst_parent_sector\<close>.\<close>

definition parent_sector :: "adfimage_dentry \<Rightarrow> int" where
  "parent_sector d =
     (if dtype d = ADFVOLUME_DENTRY_DIRECTORY then e_sector (adflib_entry d) else e_real (adflib_entry d))"

text \<open>The part behind the rewriting of the two directory paths.\<close>

definition rename_entries ::
  "('d, 'f) adflib \<Rightarrow> string \<Rightarrow> string \<Rightarrow> string \<Rightarrow> string \<Rightarrow> 'd adfimage \<Rightarrow> (int \<times> 'd adfimage) option" where
  "rename_entries L src_dir src_name dst_dir dst_name im = do {
     (src_parent_entry, im1) \<leftarrow> adfimage_getdentry L src_dir im;
     if dtype src_parent_entry = ADFVOLUME_DENTRY_NONE then Some (- ENOENT, im1)
     else if dtype src_parent_entry \<noteq> ADFVOLUME_DENTRY_DIRECTORY
       \<and> dtype src_parent_entry \<noteq> ADFVOLUME_DENTRY_LINKDIR then Some (- EINVAL, im1)
     else do {
       (dst_parent_entry, im2) \<leftarrow> adfimage_getdentry L dst_dir im1;
       if dtype dst_parent_entry = ADFVOLUME_DENTRY_NONE then Some (- ENOENT, im2)
       else if dtype dst_parent_entry \<noteq> ADFVOLUME_DENTRY_DIRECTORY
         \<and> dtype dst_parent_entry \<noteq> ADFVOLUME_DENTRY_LINKDIR then Some (- EINVAL, im2)
       else if parent_sector src_parent_entry < 2 then Some (- 1, im2)
       else if parent_sector dst_parent_entry < 2 then Some (- 1, im2)
       else do {
         v \<leftarrow> vol im2;
         let (rc, v') = adfRenameEntry L v (parent_sector src_parent_entry) src_name
                          (parent_sector dst_parent_entry) dst_name;
         Some (if rc_ok L rc then 0 else - 1, im2\<lparr>vol := Some v'\<rparr>)
       }
     }
   }"

definition adfimage_file_rename ::
  "('d, 'f) adflib \<Rightarrow> string \<Rightarrow> string \<Rightarrow> 'd adfimage \<Rightarrow> (int \<times> 'd adfimage) cres option" where
  "adfimage_file_rename L src_pathstr dst_pathstr im =
     (case new_path src_pathstr im of (src, im1) \<Rightarrow>
      case new_path dst_pathstr im1 of (dst, im2) \<Rightarrow>
      case (src, dst) of
        (Some src_path, Some dst_path) \<Rightarrow>
          if \<not> (path_is_entryname_non_empty src_path \<and> path_is_entryname_non_empty dst_path)
          then Some (Ret (- EINVAL, im2))
          else
            (case pathstr_fuse2amigados (dirpath src_path @ [NUL]) of
               None \<Rightarrow> None
             | Some UB \<Rightarrow> Some UB
             | Some (Ret src_dir) \<Rightarrow>
                 (case pathstr_fuse2amigados (dirpath dst_path @ [NUL]) of
                    None \<Rightarrow> None
                  | Some UB \<Rightarrow> Some UB
                  | Some (Ret dst_dir) \<Rightarrow>
                      returns (rename_entries L (cstr src_dir) (entryname src_path)
                        (cstr dst_dir) (entryname dst_path) im2)))
      | _ \<Rightarrow> Some (Ret (- EINVAL, im2)))"

subsection \<open>Frames\<close>

lemma change_entry_same_mount:
  assumes "change_entry L act p im = Some (r, im')"
  shows "same_mount im im'"
proof -
  obtain im1 where root: "to_root L im = Some im1"
    using assms by (auto simp: change_entry_def bind_Some_iff)
  obtain buf im2 where d: "dup p im1 = (buf, im2)" by (cases "dup p im1")
  obtain ok im3 where cd: "adfimage_chdir L (dirname_ptr buf) im2 = Some (ok, im3)"
    and body: "(if \<not> ok then Some (None, im3)
      else let (name_buf, im4) = dup p im3 in do {
         v \<leftarrow> vol im4;
         let (status, v') = act v (curDirPtr v) (basename_ptr name_buf);
         Some (Some status, im4\<lparr>vol := Some (adfToRootDir L v')\<rparr>) }) = Some (r, im')"
    using assms root d unfolding change_entry_def by (auto simp: bind_pair_Some_iff)
  obtain buf' im4 where d2: "dup p im3 = (buf', im4)" by (cases "dup p im3")
  from body d2 have "im' = im3 \<or> (\<exists>v w. vol im4 = Some v \<and> im' = im4\<lparr>vol := Some w\<rparr>)"
    by (auto simp: bind_Some_iff Let_def split_beta split: if_split_asm)
  then have "same_mount im3 im'"
    using dup_frame [OF d2] by (auto intro: same_mount_trans set_vol_same_mount)
  moreover have "same_mount im im3"
    using to_root_same_mount [OF root] dup_frame [OF d] adfimage_chdir.keeps_mount [OF cd]
    by (blast intro: same_mount_trans)
  ultimately show ?thesis by (blast intro: same_mount_trans)
qed

interpretation adfimage_mkdir: image_op "adfimage_mkdir L p m" for L :: "('d, 'f) adflib" and p m
  by unfold_locales
    (auto simp: adfimage_mkdir_def Let_def bind_pair_Some_iff split: if_split_asm
      dest: change_entry_same_mount)

interpretation adfimage_remove_entry: image_op "adfimage_remove_entry L p" for L :: "('d, 'f) adflib" and p
  by unfold_locales
    (auto simp: adfimage_remove_entry_def Let_def bind_pair_Some_iff split: if_split_asm
      dest: change_entry_same_mount)

interpretation adfimage_create: image_op "adfimage_create L p m" for L :: "('d, 'f) adflib" and p m
  by unfold_locales
    (auto simp: adfimage_create_def Let_def bind_pair_Some_iff split: if_split_asm
      dest: change_entry_same_mount)

lemma rename_entries_same_mount:
  assumes "rename_entries L sd sn dd dn im = Some (r, im')"
  shows "same_mount im im'"
proof -
  from assms obtain sp im1 where s: "adfimage_getdentry L sd im = Some (sp, im1)"
    and rest: "im' = im1 \<or> (\<exists>dp im2. adfimage_getdentry L dd im1 = Some (dp, im2) \<and>
      (im' = im2 \<or> (\<exists>v w. vol im2 = Some v \<and> im' = im2\<lparr>vol := Some w\<rparr>)))"
    by (auto simp: rename_entries_def bind_pair_Some_iff bind_Some_iff Let_def split_beta split: if_split_asm)
  from rest have "same_mount im1 im'"
    by (auto dest!: adfimage_getdentry.keeps_mount intro: same_mount_trans set_vol_same_mount)
  with adfimage_getdentry.keeps_mount [OF s] show ?thesis by (rule same_mount_trans)
qed

interpretation rename_entries: image_op "rename_entries L sd sn dd dn"
  for L :: "('d, 'f) adflib" and sd sn dd dn
  by unfold_locales (rule rename_entries_same_mount)

lemma adfimage_file_rename_same_mount:
  assumes "adfimage_file_rename L src dst im = Some (Ret (r, im'))"
  shows "same_mount im im'"
proof -
  obtain s im1 d im2 where p: "new_path src im = (s, im1)" "new_path dst im1 = (d, im2)"
    by (metis surj_pair)
  have "same_mount im im2"
    using new_path_frame [OF p(1)] new_path_frame [OF p(2)] by (blast intro: same_mount_trans)
  moreover have "same_mount im2 im'"
    using assms p
    by (auto simp: adfimage_file_rename_def returns_def
        split: option.split_asm if_split_asm cres.split_asm dest: rename_entries.keeps_mount)
  ultimately show ?thesis by (rule same_mount_trans)
qed

subsection \<open>Where an entry is created or removed\<close>

text \<open>
  The parent is found from the root, whatever the working directory was. \<open>cwd\<close> was \<open>base\<close> and
  becomes \<open>base\<close> followed by the parent's path, while the current directory becomes the root.
\<close>

lemma to_root_ok: "vol im = Some v \<Longrightarrow> to_root L im = Some (im\<lparr>vol := Some (adfToRootDir L v)\<rparr>)"
  by (simp add: to_root_def)

lemma chdir_parent:
  assumes "names (base @ cs)" "is_name c" "vol im = Some v" "heap im = []" "cwd im = abspath base"
    and "adf_walk L v cs = (b, w, e)" "length (abspath (base @ e)) < ADFIMAGE_MAX_PATH"
    and "length (cwd im) < ADFIMAGE_MAX_PATH"
  shows "adfimage_chdir L (dirname (relpath (cs @ [c]))) im =
    Some (b, im\<lparr>vol := Some w, cwd := abspath (base @ e)\<rparr>)"
proof (cases "cs = []")
  case True
  have "im\<lparr>vol := Some v, cwd := abspath base\<rparr> = im" using assms(3,5) by (cases im) simp
  with True assms show ?thesis by (simp add: dirname_no_slash is_nameD adfimage_chdir_dot)
next
  case False
  have "names cs" using assms(1) by simp
  with False show ?thesis
    using adfimage_chdir_relative [OF assms(1) False assms(3-5,8), of L] assms(2,6,7)
    by (simp add: path_simps)
qed

lemma change_entry_at:
  assumes "heap im = []" "vol im = Some v" "cwd im = abspath base" "names (base @ cs)" "is_name c"
    and "length (cwd im) < ADFIMAGE_MAX_PATH"
    and "adf_walk L (adfToRootDir L v) cs = (b, w, e)" "length (abspath (base @ e)) < ADFIMAGE_MAX_PATH"
  shows "change_entry L act (relpath (cs @ [c])) im =
    (if b then case act w (curDirPtr w) c of (rc, v') \<Rightarrow>
       Some (Some rc, im\<lparr>vol := Some (adfToRootDir L v'), cwd := abspath (base @ cs)\<rparr>)
     else Some (None, im\<lparr>vol := Some w, cwd := abspath (base @ e)\<rparr>))"
proof -
  let ?im1 = "im\<lparr>vol := Some (adfToRootDir L v)\<rparr>"
  have e: "b \<Longrightarrow> e = cs" using adf_walk_entered [OF assms(7)] by simp
  have "adfimage_chdir L (dirname (relpath (cs @ [c]))) ?im1 =
      Some (b, im\<lparr>vol := Some w, cwd := abspath (base @ e)\<rparr>)"
    using chdir_parent [of base cs c ?im1 "adfToRootDir L v" L b w e] assms by simp
  then show ?thesis
    using assms(1,2,5) e
    by (auto simp: change_entry_def to_root_ok basename_relpath split: prod.split)
qed

lemma relpath_snoc_nonempty: "names cs \<Longrightarrow> is_name c \<Longrightarrow> relpath (cs @ [c]) \<noteq> []"
  by (auto simp: relpath_snoc dest: is_nameD)

lemma mkdir_at:
  assumes "heap im = []" "vol im = Some v" "cwd im = abspath base" "names (base @ cs)" "is_name c"
    and "length (cwd im) < ADFIMAGE_MAX_PATH"
    and "adf_walk L (adfToRootDir L v) cs = (b, w, e)" "length (abspath (base @ e)) < ADFIMAGE_MAX_PATH"
  shows "adfimage_mkdir L (abspath (cs @ [c])) m im =
    (if b then case adfCreateDir L w (curDirPtr w) c of (rc, v') \<Rightarrow>
       Some (rc, im\<lparr>vol := Some (adfToRootDir L v'), cwd := abspath (base @ cs)\<rparr>)
     else Some (- ENOENT, im\<lparr>vol := Some w, cwd := abspath (base @ e)\<rparr>))"
  using change_entry_at [OF assms, of "adfCreateDir L"] relpath_snoc_nonempty [of cs c] assms(4,5)
  by (simp add: adfimage_mkdir_def split: prod.split)

lemma remove_entry_at:
  assumes "heap im = []" "vol im = Some v" "cwd im = abspath base" "names (base @ cs)" "is_name c"
    and "length (cwd im) < ADFIMAGE_MAX_PATH"
    and "adf_walk L (adfToRootDir L v) cs = (b, w, e)" "length (abspath (base @ e)) < ADFIMAGE_MAX_PATH"
  shows "adfimage_remove_entry L (abspath (cs @ [c])) im =
    (if b then case adfRemoveEntry L w (curDirPtr w) c of (rc, v') \<Rightarrow>
       Some (rc, im\<lparr>vol := Some (adfToRootDir L v'), cwd := abspath (base @ cs)\<rparr>)
     else Some (- ENOENT, im\<lparr>vol := Some w, cwd := abspath (base @ e)\<rparr>))"
  using change_entry_at [OF assms, of "adfRemoveEntry L"] relpath_snoc_nonempty [of cs c] assms(4,5)
  by (simp add: adfimage_remove_entry_def split: prod.split)

lemma create_at:
  assumes "heap im = []" "vol im = Some v" "cwd im = abspath base" "names (base @ cs)" "is_name c"
    and "length (cwd im) < ADFIMAGE_MAX_PATH"
    and "adf_walk L (adfToRootDir L v) cs = (b, w, e)" "length (abspath (base @ e)) < ADFIMAGE_MAX_PATH"
  shows "adfimage_create L (abspath (cs @ [c])) m im =
    (if b then case adfCreateFile L w (curDirPtr w) c of (rc, v') \<Rightarrow>
       Some (if rc_ok L rc then 0 else - 1,
         im\<lparr>vol := Some (adfToRootDir L v'), cwd := abspath (base @ cs)\<rparr>)
     else Some (- ENOENT, im\<lparr>vol := Some w, cwd := abspath (base @ e)\<rparr>))"
  using change_entry_at [OF assms, of "adfCreateFile L"] relpath_snoc_nonempty [of cs c] assms(4,5)
  by (simp add: adfimage_create_def split: prod.split)

text \<open>The root itself is refused, each operation with an error of its own.\<close>

lemma root_refused:
  "adfimage_mkdir L (abspath []) m im = Some (- EEXIST, im)"
  "adfimage_remove_entry L (abspath []) im = Some (- EPERM, im)"
  "adfimage_create L (abspath []) m im = Some (- EINVAL, im)"
  by (simp_all add: adfimage_mkdir_def adfimage_remove_entry_def adfimage_create_def
      pathstr_get_relative_def)

subsection \<open>Creating many files in one directory\<close>

fun create_all ::
  "('d, 'f) adflib \<Rightarrow> string list \<Rightarrow> string list \<Rightarrow> 'd adfimage \<Rightarrow> 'd adfimage option" where
  "create_all L cs [] im = Some im"
| "create_all L cs (n # ns) im = do {
     (_, im') \<leftarrow> adfimage_create L (abspath (cs @ [n])) 0 im;
     create_all L cs ns im'
   }"

text \<open>What is needed of \<open>adfCreateFile\<close> for that: it makes no directory disappear or move.\<close>

definition creates_ok :: "('d, 'f) adflib \<Rightarrow> bool" where
  "creates_ok L \<longleftrightarrow> (\<forall>v s n. same_tree L v (snd (adfCreateFile L v s n)))"

text \<open>
  Each creation appends the directory's path to \<open>cwd\<close> once more; when the text outgrows the
  buffer the run is undefined.
\<close>

lemma create_all_cwd:
  assumes "nav_ok L" "creates_ok L" "heap im = []" "vol im = Some v" "cwd im = abspath base"
    and "names base" "names cs" "names ns" "length (cwd im) < ADFIMAGE_MAX_PATH"
    and "adf_walk L (adfToRootDir L v) cs = (True, w, cs)" "curDirPtr v = rootBlock v"
  shows "if length (abspath (base @ concat (replicate (length ns) cs))) < ADFIMAGE_MAX_PATH
    then \<exists>v'. create_all L cs ns im =
      Some (im\<lparr>vol := Some v', cwd := abspath (base @ concat (replicate (length ns) cs))\<rparr>) \<and>
      curDirPtr v' = rootBlock v'
    else create_all L cs ns im = None"
  using assms(3-)
proof (induction ns arbitrary: im v w base)
  case Nil
  have "im\<lparr>vol := Some v, cwd := abspath base\<rparr> = im" using Nil.prems(2,3) by (cases im) simp
  then show ?case using Nil.prems(3,7,9) by (auto intro!: exI [of _ v])
next
  case (Cons n ns)
  have nm: "names (base @ cs)" "is_name n" "names ns" using Cons.prems(4-6) by auto
  have app: "base @ concat (replicate (length (n # ns)) cs) = (base @ cs) @ concat (replicate (length ns) cs)"
    by simp
  show ?case
  proof (cases "length (abspath (base @ cs)) < ADFIMAGE_MAX_PATH")
    case True
    obtain rc v' where cf: "adfCreateFile L w (curDirPtr w) n = (rc, v')"
      by (cases "adfCreateFile L w (curDirPtr w) n")
    let ?im' = "im\<lparr>vol := Some (adfToRootDir L v'), cwd := abspath (base @ cs)\<rparr>"
    have step: "create_all L cs (n # ns) im = create_all L cs ns ?im'"
      using create_at [OF Cons.prems(1-3) nm(1,2) Cons.prems(7,8) True, of 0] cf by simp
    have "same_tree L v w"
      using adf_walk_same [OF assms(1) Cons.prems(8)] adfToRootDir_same [OF assms(1), of v]
      by (blast intro: same_volume_tree same_volume_trans)
    moreover have "same_tree L w v'" using assms(2) cf by (metis creates_ok_def snd_conv)
    ultimately have "same_tree L v v'" by (simp add: same_tree_def)
    from walk_root_same_tree [OF assms(1) this Cons.prems(8)]
    have walk: "adf_walk L (adfToRootDir L (adfToRootDir L v')) cs = (True, v'\<lparr>curDirPtr := curDirPtr w\<rparr>, cs)"
      using assms(1) by simp
    have root: "curDirPtr (adfToRootDir L v') = rootBlock (adfToRootDir L v')"
      using assms(1) by (simp add: nav_ok_def)
    show ?thesis
      unfolding step app
      using Cons.IH [of ?im' "adfToRootDir L v'" "base @ cs", OF _ _ _ _ Cons.prems(5) nm(3) _ walk root]
        Cons.prems(1) nm(1) True by (simp split: if_splits)
  next
    case False
    have "adfimage_create L (abspath (cs @ [n])) 0 im = None"
    proof -
      have cs: "cs \<noteq> []" using False Cons.prems(3,7) by auto
      let ?im1 = "im\<lparr>vol := Some (adfToRootDir L v)\<rparr>"
      have "adfimage_chdir L (dirname (relpath (cs @ [n]))) ?im1 = None"
        using adfimage_chdir_relative [of base cs ?im1 "adfToRootDir L v" L] nm cs Cons.prems False
        by (simp add: path_simps)
      then have "change_entry L (adfCreateFile L) (relpath (cs @ [n])) im = None"
        using Cons.prems(1,2) by (simp add: change_entry_def to_root_ok)
      then show ?thesis
        using nm Cons.prems(5) relpath_snoc_nonempty by (simp add: adfimage_create_def)
    qed
    moreover have "\<not> length (abspath ((base @ cs) @ concat (replicate (length ns) cs))) < ADFIMAGE_MAX_PATH"
      using False length_abspath_append [of "base @ cs"] by (meson le_less_trans)
    ultimately show ?thesis unfolding app by simp
  qed
qed

subsection \<open>When a rename returns\<close>

lemma NUL_notin_abspath: "names cs \<Longrightarrow> NUL \<notin> set (abspath cs)"
  using set_relpath [of cs] by (auto simp: abspath_Cons_relpath is_name_def)

lemma fuse2amigados_abspath:
  assumes "names cs"
  shows "if dotted cs then pathstr_fuse2amigados (abspath cs @ [NUL]) = None
    else \<exists>buf. pathstr_fuse2amigados (abspath cs @ [NUL]) = Some (Ret buf) \<and> cstr buf = abspath cs"
  using pathstr_fuse2amigados_result [OF NUL_notin_abspath [OF assms]] amigados_path_abspath [OF assms]
  by (auto split: if_splits)

lemma rename_canonical:
  assumes "names cs" "is_name c" "names ds" "is_name d" "heap im = []"
  shows "adfimage_file_rename L (abspath (cs @ [c])) (abspath (ds @ [d])) im =
    (if dotted cs \<or> dotted ds then None
     else returns (rename_entries L (abspath cs) c (abspath ds) d im))"
proof -
  have nonempty: "path_is_entryname_non_empty \<lparr>dirpath = abspath es, entryname = e\<rparr>" for es e
    by (simp add: path_is_entryname_non_empty_def)
  show ?thesis
    using assms fuse2amigados_abspath [OF assms(1)] fuse2amigados_abspath [OF assms(3)]
    by (auto simp: adfimage_file_rename_def path_simps nonempty split: if_splits)
qed

subsection \<open>What a rename does\<close>

definition is_dir :: "adfimage_dentry \<Rightarrow> bool" where
  "is_dir e \<longleftrightarrow> dtype e = ADFVOLUME_DENTRY_DIRECTORY \<or> dtype e = ADFVOLUME_DENTRY_LINKDIR"

text \<open>
  A look-up by a canonical path that fits always returns, and leaves a volume that differs in the
  current directory at most.
\<close>

lemma getdentry_returns:
  assumes "nav_ok L" "names p" "cwd_ok im" "heap im = []" "vol im = Some v" "length (abspath p) < ADFIMAGE_MAX_PATH"
  shows "\<exists>d im' u. adfimage_getdentry L (abspath p) im = Some (d, im') \<and>
    cwd_ok im' \<and> heap im' = [] \<and> vol im' = Some u \<and> same_volume v u"
proof (cases p rule: rev_cases)
  case Nil
  have "adfimage_get_root_dentry L im \<noteq> None"
    using assms(5) by (simp add: adfimage_get_root_dentry_def split: prod.split)
  with Nil assms(3-5) show ?thesis by (auto simp: adfimage_getdentry_def)
next
  case (snoc cs c)
  then have n: "names cs" "is_name c" using assms(2) by auto
  obtain b w e where walk: "adf_walk L (adfToRootDir L v) cs = (b, w, e)"
    by (cases "adf_walk L (adfToRootDir L v) cs")
  have len: "length (abspath e) < ADFIMAGE_MAX_PATH"
    using length_abspath_entered [OF walk] length_abspath_append [of cs "[c]"] assms(6) snoc by simp
  have vw: "same_volume v w"
    using adf_walk_same [OF assms(1) walk] adfToRootDir_same [OF assms(1), of v]
    by (rule same_volume_trans [rotated])
  obtain u where u: "vol (homed L im) = Some u" "same_volume v u" by (rule homed_vol [OF assms(1,3,5,4)])
  have home: "cwd_ok (homed L im)" "heap (homed L im) = []"
    using in_sync_cwd_ok [OF homed_in_sync [OF assms(1,3,5,4)]] homed_heap [OF assms(3-5)] by simp_all
  have left: "cwd_ok (im\<lparr>vol := Some w, cwd := abspath e\<rparr>)"
    using names_entered [OF walk n(1)] len by (intro cwd_okI [of e]) simp_all
  from getdentry_homed [OF assms(1) n assms(3-5) walk len] u vw home left assms(4) snoc
  show ?thesis by (cases "adfGetDirEnt L w (curDirPtr w) = []") simp_all
qed

text \<open>
  \<open>enters_listed\<close>: ADFlib enters a listed directory, or a link to one, where its entry says. It is
  what makes the sector that the code takes from the parent's entry the parent's sector.
\<close>

definition enters_listed :: "('d, 'f) adflib \<Rightarrow> bool" where
  "enters_listed L \<longleftrightarrow>
     (\<forall>v n rc v'. let d = lookup_entry L (adfGetDirEnt L v (curDirPtr v)) n in
        is_dir d \<and> adfChangeDir L v n = (rc, v') \<and> rc_ok L rc \<longrightarrow> curDirPtr v' = parent_sector d)"

lemma getdentry_parent:
  assumes "nav_ok L" "enters_listed L" "names p" "cwd_ok im" "heap im = []" "vol im = Some v"
    and "length (abspath p) < ADFIMAGE_MAX_PATH" "adf_walk L (adfToRootDir L v) p = (True, w, p)"
    and "adfimage_getdentry L (abspath p) im = Some (d, im')" "is_dir d"
  shows "parent_sector d = curDirPtr w"
proof (cases p rule: rev_cases)
  case Nil
  with assms(8) have "curDirPtr w = rootBlock v" using assms(1) by (auto simp: nav_ok_def)
  moreover have "adfimage_get_root_dentry L im = Some d" using Nil assms(9) by (auto simp: adfimage_getdentry_def bind_Some_iff)
  with assms(6,10) have "parent_sector d = rootBlock v"
    by (auto simp: adfimage_get_root_dentry_def is_dir_def no_dentry_def parent_sector_def Let_def
        split: prod.split_asm if_split_asm)
  ultimately show ?thesis by simp
next
  case (snoc cs c)
  then have n: "names cs" "is_name c" using assms(3) by auto
  from assms(8) snoc obtain x e rc where walk: "adf_walk L (adfToRootDir L v) cs = (True, x, e)"
    and last: "adfChangeDir L x c = (rc, w)" "rc_ok L rc"
    by (auto simp: adf_walk_append split: prod.split_asm if_split_asm)
  have "length (abspath e) < ADFIMAGE_MAX_PATH"
    using length_abspath_entered [OF walk] length_abspath_append [of cs "[c]"] assms(7) snoc by simp
  from getdentry_homed [OF assms(1) n assms(4-6) walk this] assms(9) snoc
  have "d = lookup_entry L (adfGetDirEnt L x (curDirPtr x)) c" by (simp add: Let_def)
  with assms(2,10) last show ?thesis unfolding enters_listed_def by (metis)
qed

lemma rename_entries_returns:
  assumes "nav_ok L" "names cs" "names ds" "cwd_ok im" "heap im = []" "vol im = Some v"
    and "length (abspath cs) < ADFIMAGE_MAX_PATH" "length (abspath ds) < ADFIMAGE_MAX_PATH"
  shows "\<exists>r im'. rename_entries L (abspath cs) c (abspath ds) d im = Some (r, im') \<and>
    r \<in> {0, - 1, - ENOENT, - EINVAL}"
proof -
  from getdentry_returns [OF assms(1,2,4-7)] obtain sp im1 u1 where
    1: "adfimage_getdentry L (abspath cs) im = Some (sp, im1)" "cwd_ok im1" "heap im1 = []" "vol im1 = Some u1"
    by blast
  from getdentry_returns [OF assms(1,3) 1(2-4) assms(8)] obtain dp im2 u2 where
    2: "adfimage_getdentry L (abspath ds) im1 = Some (dp, im2)" "vol im2 = Some u2" by blast
  from 1(1) 2 show ?thesis by (simp add: rename_entries_def split: prod.split)
qed

text \<open>
  A rename that reports success has called ADFlib with the sectors of the two parents.
\<close>

lemma rename_entries_done:
  assumes "nav_ok L" "enters_listed L" "names cs" "names ds" "cwd_ok im" "heap im = []" "vol im = Some v"
    and "length (abspath cs) < ADFIMAGE_MAX_PATH" "length (abspath ds) < ADFIMAGE_MAX_PATH"
    and "adf_walk L (adfToRootDir L v) cs = (True, w, cs)" "adf_walk L (adfToRootDir L v) ds = (True, x, ds)"
    and "rename_entries L (abspath cs) c (abspath ds) d im = Some (0, im')"
  shows "\<exists>u rc v'. same_volume v u \<and> adfRenameEntry L u (curDirPtr w) c (curDirPtr x) d = (rc, v') \<and>
    rc_ok L rc \<and> vol im' = Some v' \<and> cwd_ok im' \<and> heap im' = []"
proof -
  from getdentry_returns [OF assms(1,3,5-8)] obtain sp im1 u1 where
    1: "adfimage_getdentry L (abspath cs) im = Some (sp, im1)" "cwd_ok im1" "heap im1 = []" "vol im1 = Some u1"
      "same_volume v u1" by blast
  from getdentry_returns [OF assms(1,4) 1(2-4) assms(9)] obtain dp im2 u2 where
    2: "adfimage_getdentry L (abspath ds) im1 = Some (dp, im2)" "cwd_ok im2" "heap im2 = []" "vol im2 = Some u2"
      "same_volume u1 u2" by blast
  have walk: "adf_walk L (adfToRootDir L u1) ds = (True, x, ds)"
    using assms(11) same_volume_root [OF assms(1) 1(5)] by simp
  obtain rc v' where rn: "adfRenameEntry L u2 (parent_sector sp) c (parent_sector dp) d = (rc, v')"
    by (cases "adfRenameEntry L u2 (parent_sector sp) c (parent_sector dp) d")
  from assms(12) 1(1) 2(1,4) rn have "is_dir sp" "is_dir dp" "rc_ok L rc" "im' = im2\<lparr>vol := Some v'\<rparr>"
    by (auto simp: rename_entries_def is_dir_def errno_defs split: if_split_asm)
  moreover from this getdentry_parent [OF assms(1,2,3,5-8,10) 1(1)] getdentry_parent [OF assms(1,2,4) 1(2-4) assms(9) walk 2(1)]
  have "parent_sector sp = curDirPtr w" "parent_sector dp = curDirPtr x" by blast+
  ultimately show ?thesis using rn 1(5) 2(2,3,5) by (auto intro: same_volume_trans)
qed

text \<open>
  \<open>renames_ok\<close> is ADFlib's contract for renaming a file: if it succeeds the file has its bytes under
  the new name in the new directory and is gone under the old one; other files and the directories
  stay.
\<close>

definition renames_ok :: "('d, 'f) adflib \<Rightarrow> 'd content \<Rightarrow> bool" where
  "renames_ok L content \<longleftrightarrow>
     (\<forall>v s n s' n' rc v' bs.
        content v s n = Some bs \<and> adfRenameEntry L v s n s' n' = (rc, v') \<and> rc_ok L rc \<longrightarrow>
        same_tree L v v' \<and>
        (\<forall>d m. content v' d m =
           (if d = s' \<and> m = n' then Some bs else if d = s \<and> m = n then None else content v d m)))"

subsection \<open>Properties\<close>

text \<open>
  C16: Creating a directory, creating a file and removing an entry act on the directory that
  the path names from the root, also when the current directory is another: ADFlib is called with
  that directory's sector and the last name, and its new volume is the image's, with the root as
  current directory. If the directory does not exist the result is \<open>-ENOENT\<close>, and the image is left
  where the walk stopped. \<open>mkdir\<close> and \<open>remove\<close> pass ADFlib's return code on, \<open>create\<close> reduces it to
  0 or -1. In any case the path entered is appended to \<open>cwd\<close>, which is \<open>base\<close> before: the two
  together must fit its 1024 bytes.
\<close>

theorem entries_changed_in_parent:
  assumes "heap im = []" "vol im = Some v" "cwd im = abspath base" "names (base @ cs)" "is_name c"
    and "length (cwd im) < ADFIMAGE_MAX_PATH"
    and "adf_walk L (adfToRootDir L v) cs = (b, w, e)" "length (abspath (base @ e)) < ADFIMAGE_MAX_PATH"
    and "changed = (\<lambda>v'. im\<lparr>vol := Some (adfToRootDir L v'), cwd := abspath (base @ cs)\<rparr>)"
    and "failed = (- ENOENT, im\<lparr>vol := Some w, cwd := abspath (base @ e)\<rparr>)"
  shows "adfimage_mkdir L (abspath (cs @ [c])) m im =
      Some (if b then case adfCreateDir L w (curDirPtr w) c of (rc, v') \<Rightarrow> (rc, changed v') else failed) \<and>
    adfimage_rmdir L (abspath (cs @ [c])) im =
      Some (if b then case adfRemoveEntry L w (curDirPtr w) c of (rc, v') \<Rightarrow> (rc, changed v') else failed) \<and>
    adfimage_unlink L (abspath (cs @ [c])) im =
      Some (if b then case adfRemoveEntry L w (curDirPtr w) c of (rc, v') \<Rightarrow> (rc, changed v') else failed) \<and>
    adfimage_create L (abspath (cs @ [c])) m im =
      Some (if b then case adfCreateFile L w (curDirPtr w) c of
              (rc, v') \<Rightarrow> (if rc_ok L rc then 0 else - 1, changed v') else failed)"
  using mkdir_at [OF assms(1-8), of m] remove_entry_at [OF assms(1-8)] create_at [OF assms(1-8), of m]
  by (simp add: assms(9,10) adfimage_rmdir_def adfimage_unlink_def split: prod.split)

text \<open>
  The operations refuse the root, each with an error of its own, and leave the image alone.
\<close>

lemma root_is_refused:
  "adfimage_mkdir L ''/'' m im = Some (- EEXIST, im) \<and>
   adfimage_rmdir L ''/'' im = Some (- EPERM, im) \<and>
   adfimage_unlink L ''/'' im = Some (- EPERM, im) \<and>
   adfimage_create L ''/'' m im = Some (- EINVAL, im)"
  by (simp add: adfimage_rmdir_def adfimage_unlink_def root_refused [simplified])

text \<open>
  C29: Creating \<open>n\<close> files one after the other in the same existing directory, starting with both working
  directories at the root, leaves the current directory at the root but \<open>cwd\<close> as the directory's
  path repeated \<open>n\<close> times; as soon as that text does not fit the 1024 bytes of \<open>cwd\<close> the run is
  undefined.
\<close>

theorem repeated_create_grows_cwd:
  assumes "nav_ok L" "creates_ok L" "heap im = []" "vol im = Some v" "cwd im = ''/''" "curDirPtr v = rootBlock v"
    and "names cs" "names ns" "adf_walk L (adfToRootDir L v) cs = (True, w, cs)"
  shows "if length (abspath (concat (replicate (length ns) cs))) < ADFIMAGE_MAX_PATH
    then \<exists>v'. create_all L cs ns im =
      Some (im\<lparr>vol := Some v', cwd := abspath (concat (replicate (length ns) cs))\<rparr>) \<and>
      curDirPtr v' = rootBlock v'
    else create_all L cs ns im = None"
  using create_all_cwd [OF assms(1-4), of "[]" cs ns w] assms(5-9)
  unfolding append_Nil by (simp add: ADFIMAGE_MAX_PATH_def)

text \<open>
  C18: A rename of canonical paths does not return if a directory on the way, of the source or of the
  target, begins with two dots, or one but the last of its path ends with two dots. Otherwise, if the
  two parents' paths fit the buffer of \<open>cwd\<close>, it returns a result, which is 0, -1, \<open>-ENOENT\<close> or
  \<open>-EINVAL\<close>; on an image with a volume and a canonical \<open>cwd\<close> it is then never undefined, whatever
  directories exist.
\<close>

theorem rename_returns:
  assumes "names cs" "is_name c" "names ds" "is_name d" "heap im = []"
  shows "(dotted cs \<or> dotted ds \<longrightarrow> adfimage_file_rename L (abspath (cs @ [c])) (abspath (ds @ [d])) im = None) \<and>
    (\<not> (dotted cs \<or> dotted ds) \<and> nav_ok L \<and> cwd_ok im \<and> vol im = Some v \<and>
       length (abspath cs) < ADFIMAGE_MAX_PATH \<and> length (abspath ds) < ADFIMAGE_MAX_PATH \<longrightarrow>
     (\<exists>r im'. adfimage_file_rename L (abspath (cs @ [c])) (abspath (ds @ [d])) im = Some (Ret (r, im')) \<and>
       r \<in> {0, - 1, - ENOENT, - EINVAL}))"
  unfolding rename_canonical [OF assms] returns_def
  using rename_entries_returns [of L cs ds im v c d] assms by fastforce


end
