(* ===== verification/Adf_Open.thy ===== *)
theory Adf_Open
  imports Adf_Chdir
begin

section \<open>Opening and closing an image: \<open>src/src/adfimage.c\<close>\<close>

text \<open>
  \<open>adfimage_open\<close> acquires ADFlib, the device, its mount, the volume and the memory of the
  image, in this order, and on a failure releases what it holds; \<open>adfimage_close\<close> releases
  everything. The model returns, beside the result, the list of acquisitions and releases that
  took place. The specification is a protocol over them, an inductive step relation on the
  set of resources held: nothing is acquired twice or released when it is not held, and
  nothing is released while something that depends on it is held.
\<close>

subsection \<open>The code\<close>

datatype adf_event =
    LibInit | LibCleanUp
  | SetIgnoreChecksum bool
  | DevOpen | DevClose
  | DevMount | DevUnMount
  | VolMount | VolUnMount
  | ImageAlloc | ImageFree

text \<open>
  What ADFlib answers while an image is opened (devices and volumes are not in \<open>adflib\<close>), and
  the block size \<open>stat\<close> reports.
\<close>

record 'd mountlib =
  adfLibInit :: int
  adfDevOpen :: "string \<Rightarrow> AdfAccessMode \<Rightarrow> AdfDevice option"
  adfDevMount :: "AdfDevice \<Rightarrow> int \<times> AdfDevice"
  adfVolMount :: "AdfDevice \<Rightarrow> int \<Rightarrow> AdfAccessMode \<Rightarrow> 'd AdfVolume option"
  stat_blksize :: "string \<Rightarrow> int"

definition access_mode :: "bool \<Rightarrow> AdfAccessMode" where
  "access_mode read_only = (if read_only then ADF_ACCESS_MODE_READONLY else ADF_ACCESS_MODE_READWRITE)"

definition mount_dev ::
  "'d mountlib \<Rightarrow> ('d, 'f) adflib \<Rightarrow> string \<Rightarrow> bool \<Rightarrow> AdfDevice option \<times> adf_event list" where
  "mount_dev M L adf_filename read_only =
     (case adfDevOpen M adf_filename (access_mode read_only) of
        None \<Rightarrow> (None, [])
      | Some d \<Rightarrow>
          (case adfDevMount M d of (rc, d') \<Rightarrow>
             if \<not> rc_ok L rc then (None, [DevOpen, DevClose])
             else (Some d', [DevOpen, DevMount])))"

definition mount_volume ::
  "'d mountlib \<Rightarrow> AdfDevice \<Rightarrow> 32 word \<Rightarrow> bool \<Rightarrow> 'd AdfVolume option \<times> adf_event list" where
  "mount_volume M d part read_only =
     (case adfVolMount M d (sint part) (access_mode read_only) of
        None \<Rightarrow> (None, [])
      | Some v \<Rightarrow> (Some v, [VolMount]))"

text \<open>The error code itself is returned as the truth value when the root block cannot be read.\<close>

definition isBlockAllocationBitmapValid :: "('d, 'f) adflib \<Rightarrow> 'd AdfVolume \<Rightarrow> bool" where
  "isBlockAllocationBitmapValid L v =
     (case adfReadRootBlock L v (rootBlock v) of (rc, root) \<Rightarrow>
        if \<not> rc_ok L rc then rc \<noteq> 0
        else b_bmFlag root = ADF_BM_VALID (K L))"

definition cleanup_adflib :: "adf_event list" where
  "cleanup_adflib = [LibCleanUp]"

definition cleanup_dev :: "adf_event list" where
  "cleanup_dev = [DevUnMount, DevClose] @ cleanup_adflib"

definition cleanup_vol :: "adf_event list" where
  "cleanup_vol = [VolUnMount] @ cleanup_dev"

definition adfimage_open ::
  "'d mountlib \<Rightarrow> ('d, 'f) adflib \<Rightarrow> string \<Rightarrow> 32 word \<Rightarrow> bool \<Rightarrow> bool \<Rightarrow> heap
    \<Rightarrow> 'd adfimage option \<times> adf_event list" where
  "adfimage_open M L f volume read_only ignore_checksum_errors h =
     (if \<not> rc_ok L (adfLibInit M) then (None, [])
      else
        let evs0 = [LibInit, SetIgnoreChecksum ignore_checksum_errors];
            (dv, evs1) = mount_dev M L f read_only
        in (case dv of
          None \<Rightarrow> (None, evs0 @ evs1 @ cleanup_adflib)
        | Some d \<Rightarrow>
            let (vl, evs2) = mount_volume M d volume read_only
            in (case vl of
              None \<Rightarrow> (None, evs0 @ evs1 @ evs2 @ cleanup_dev)
            | Some v \<Rightarrow>
                if \<not> read_only \<and> \<not> isBlockAllocationBitmapValid L v
                then (None, evs0 @ evs1 @ evs2 @ cleanup_vol)
                else (case malloc h of (ok, h') \<Rightarrow>
                  if \<not> ok then (None, evs0 @ evs1 @ evs2 @ cleanup_vol)
                  else (Some \<lparr>filename = f, dev = Some d, vol = Some v,
                              fstat_blksize = stat_blksize M f, cwd = ''/'', heap = h'\<rparr>,
                        evs0 @ evs1 @ evs2 @ [ImageAlloc])))))"

text \<open>\<open>adfimage_close\<close>; the pointer is null afterwards.\<close>

definition adfimage_close :: "'d adfimage option \<Rightarrow> 'd adfimage option \<times> adf_event list" where
  "adfimage_close im =
     (case im of
        None \<Rightarrow> (None, [])
      | Some i \<Rightarrow>
          (None,
           (if vol i \<noteq> None then [VolUnMount] else []) @
           (if dev i \<noteq> None then [DevUnMount, DevClose] else []) @
           [ImageFree, LibCleanUp]))"

subsection \<open>The protocol\<close>

record held =
  h_lib :: bool
  h_dev :: bool
  h_mounted :: bool
  h_vol :: bool
  h_mem :: bool

definition nothing :: held where
  "nothing = \<lparr>h_lib = False, h_dev = False, h_mounted = False, h_vol = False, h_mem = False\<rparr>"

definition everything :: held where
  "everything = \<lparr>h_lib = True, h_dev = True, h_mounted = True, h_vol = True, h_mem = True\<rparr>"

inductive res_step :: "held \<Rightarrow> adf_event \<Rightarrow> held \<Rightarrow> bool" where
  lib_init: "\<not> h_lib h \<Longrightarrow> res_step h LibInit (h\<lparr>h_lib := True\<rparr>)"
| lib_cleanup: "h_lib h \<Longrightarrow> \<not> h_dev h \<Longrightarrow> res_step h LibCleanUp (h\<lparr>h_lib := False\<rparr>)"
| set_property: "h_lib h \<Longrightarrow> res_step h (SetIgnoreChecksum b) h"
| dev_open: "h_lib h \<Longrightarrow> \<not> h_dev h \<Longrightarrow> res_step h DevOpen (h\<lparr>h_dev := True\<rparr>)"
| dev_close: "h_dev h \<Longrightarrow> \<not> h_mounted h \<Longrightarrow> res_step h DevClose (h\<lparr>h_dev := False\<rparr>)"
| dev_mount: "h_dev h \<Longrightarrow> \<not> h_mounted h \<Longrightarrow> res_step h DevMount (h\<lparr>h_mounted := True\<rparr>)"
| dev_unmount: "h_mounted h \<Longrightarrow> \<not> h_vol h \<Longrightarrow> res_step h DevUnMount (h\<lparr>h_mounted := False\<rparr>)"
| vol_mount: "h_mounted h \<Longrightarrow> \<not> h_vol h \<Longrightarrow> res_step h VolMount (h\<lparr>h_vol := True\<rparr>)"
| vol_unmount: "h_vol h \<Longrightarrow> res_step h VolUnMount (h\<lparr>h_vol := False\<rparr>)"
| image_alloc: "\<not> h_mem h \<Longrightarrow> res_step h ImageAlloc (h\<lparr>h_mem := True\<rparr>)"
| image_free: "h_mem h \<Longrightarrow> res_step h ImageFree (h\<lparr>h_mem := False\<rparr>)"

inductive res_run :: "held \<Rightarrow> adf_event list \<Rightarrow> held \<Rightarrow> bool" where
  res_done: "res_run h [] h"
| res_next: "res_step h e h' \<Longrightarrow> res_run h' es h'' \<Longrightarrow> res_run h (e # es) h''"

code_pred (modes: i \<Rightarrow> i \<Rightarrow> o \<Rightarrow> bool) res_run .

inductive_simps res_step_simps [simp]:
  "res_step h LibInit h'" "res_step h LibCleanUp h'" "res_step h (SetIgnoreChecksum b) h'"
  "res_step h DevOpen h'" "res_step h DevClose h'" "res_step h DevMount h'" "res_step h DevUnMount h'"
  "res_step h VolMount h'" "res_step h VolUnMount h'" "res_step h ImageAlloc h'" "res_step h ImageFree h'"

inductive_simps res_run_simps [simp]: "res_run h [] h'" "res_run h (e # es) h'"

lemma res_run_append:
  "res_run h es h' \<Longrightarrow> res_run h' fs h'' \<Longrightarrow> res_run h (es @ fs) h''"
  by (induction rule: res_run.induct) auto

lemma res_step_deterministic: "res_step h e h1 \<Longrightarrow> res_step h e h2 \<Longrightarrow> h1 = h2"
  by (cases e) auto

lemma res_run_deterministic: "res_run h es h1 \<Longrightarrow> res_run h es h2 \<Longrightarrow> h1 = h2"
proof (induction arbitrary: h2 rule: res_run.induct)
  case (res_done h)
  then show ?case by simp
next
  case (res_next h e h' es h'')
  from res_next.prems obtain h1 where "res_step h e h1" "res_run h1 es h2"
    by (auto simp only: res_run_simps)
  with res_next.hyps(1) res_next.IH show ?case using res_step_deterministic by blast
qed

text \<open>
  In every state the protocol reaches, a volume is mounted only on a mounted device, a device
  is mounted only when open, and open only while ADFlib is initialised.
\<close>

definition dependencies :: "held \<Rightarrow> bool" where
  "dependencies h \<longleftrightarrow>
     (h_vol h \<longrightarrow> h_mounted h) \<and> (h_mounted h \<longrightarrow> h_dev h) \<and> (h_dev h \<longrightarrow> h_lib h)"

lemma res_step_dependencies: "res_step h e h' \<Longrightarrow> dependencies h \<Longrightarrow> dependencies h'"
  by (induction rule: res_step.induct) (auto simp: dependencies_def)

lemma res_run_dependencies: "res_run h es h' \<Longrightarrow> dependencies h \<Longrightarrow> dependencies h'"
  by (induction rule: res_run.induct) (auto dest: res_step_dependencies)

subsection \<open>Opening and closing keep the protocol\<close>

lemmas open_defs =
  adfimage_open_def mount_dev_def mount_volume_def cleanup_adflib_def cleanup_dev_def cleanup_vol_def

lemma open_obeys:
  "adfimage_open M L f n ro ign h = (im, evs) \<Longrightarrow>
    res_run nothing evs (if im = None then nothing else everything)"
  by (auto simp: open_defs Let_def nothing_def everything_def split: if_splits option.splits prod.splits)

lemma open_image:
  "adfimage_open M L f n ro ign h = (Some im, evs) \<Longrightarrow>
    filename im = f \<and> dev im \<noteq> None \<and> cwd im = ''/'' \<and> fstat_blksize im = stat_blksize M f \<and>
    (\<exists>d v. vol im = Some v \<and> adfVolMount M d (sint n) (access_mode ro) = Some v \<and>
      (ro \<or> isBlockAllocationBitmapValid L v)) \<and> (h = [] \<longrightarrow> heap im = [])"
  by (auto simp: open_defs Let_def split: if_splits option.splits prod.splits)

lemma close_obeys:
  "vol im \<noteq> None \<Longrightarrow> dev im \<noteq> None \<Longrightarrow>
    adfimage_close (Some im) = (None, evs) \<Longrightarrow> res_run everything evs nothing"
  by (auto simp: adfimage_close_def everything_def nothing_def)

text \<open>
  What lies between opening and closing keeps the mount (\<open>image_op\<close>), so closing finds the
  resources that opening acquired.
\<close>

lemma open_use_close:
  assumes "adfimage_open M L f n ro ign h = (Some im, evs)" "same_mount im im'"
    and "adfimage_close (Some im') = (r, evs')"
  shows "r = None \<and> res_run nothing (evs @ evs') nothing"
proof -
  from open_image [OF assms(1)] have "vol im \<noteq> None" "dev im \<noteq> None" by auto
  with assms(2) have "vol im' \<noteq> None" "dev im' \<noteq> None" by (simp_all add: same_mount_def)
  moreover from assms(3) have r: "r = None" by (simp add: adfimage_close_def)
  ultimately have "res_run everything evs' nothing" using close_obeys assms(3) by blast
  with open_obeys [OF assms(1)] r show ?thesis by (auto intro: res_run_append)
qed

text \<open>Right after opening, the two working directories agree, if a mounted volume starts at its root.\<close>

lemma open_in_sync:
  assumes "nav_ok L" "adfimage_open M L f n ro ign [] = (Some im, evs)"
    and "\<forall>d p m v. adfVolMount M d p m = Some v \<longrightarrow> curDirPtr v = rootBlock v"
  shows "in_sync L im"
proof -
  from open_image [OF assms(2)] assms(3) obtain v where
    v: "vol im = Some v" "curDirPtr v = rootBlock v" "cwd im = ''/''" by blast
  then have "adfToRootDir L v = v" using assms(1) by (cases v) (simp add: nav_ok_def)
  with v show ?thesis by (intro in_syncI [of _ v "[]"]) (simp_all add: ADFIMAGE_MAX_PATH_def)
qed

subsection \<open>The check of the bitmap\<close>

text \<open>
  With a readable root block the check is what its name says. With an unreadable one it
  passes, as every error code is different from zero.
\<close>

lemma bitmap_check:
  assumes "const_ok L" "adfReadRootBlock L v (rootBlock v) = (rc, root)"
  shows "isBlockAllocationBitmapValid L v \<longleftrightarrow> rc \<noteq> 0 \<or> b_bmFlag root = ADF_BM_VALID (K L)"
  using assms by (auto simp: isBlockAllocationBitmapValid_def const_ok_def)

subsection \<open>Properties\<close>

text \<open>
  C3: Opening an image follows the protocol of acquiring and releasing. If it fails, at
  whatever step, everything acquired has been released again; if it succeeds, everything is held.
\<close>

theorem open_all_or_nothing:
  assumes "adfimage_open M L f n ro ign h = (im, evs)"
  shows "res_run nothing evs (if im = None then nothing else everything)"
  using assms by (rule open_obeys)

text \<open>
  C22: After opening, any use of the image that keeps its mount, and closing, nothing is held;
  and every release on the way was of something that was held and no longer needed.
\<close>

theorem open_then_close:
  assumes "adfimage_open M L f n ro ign h = (Some im, evs)" "same_mount im im'"
    and "adfimage_close (Some im') = (r, evs')"
  shows "r = None \<and> res_run nothing (evs @ evs') nothing"
  using assms by (rule open_use_close)

text \<open>
  An image just opened stands in the root, with \<open>cwd\<close> and the current directory in agreement.
\<close>

lemma open_starts_in_root:
  assumes "nav_ok L" "adfimage_open M L f n ro ign [] = (Some im, evs)"
    and "\<forall>d p m v. adfVolMount M d p m = Some v \<longrightarrow> curDirPtr v = rootBlock v"
  shows "cwd im = ''/'' \<and> in_sync L im"
  using open_image [OF assms(2)] open_in_sync [OF assms] by blast

text \<open>
  C36: When a volume is opened for writing. Starting ADFlib, opening and mounting the device,
  mounting the volume and the allocation must succeed, and the check of the bitmap flag must
  pass: either the root block, which holds the flag, says that the bitmap is valid, or the root
  block cannot be read at all. Nothing else decides.
\<close>

theorem bitmap_guards_writing:
  assumes "const_ok L"
  shows "(\<exists>im evs. adfimage_open M L f n False ign h = (Some im, evs) \<and> vol im = Some v) \<longleftrightarrow>
    adfLibInit M = 0 \<and> fst (malloc h) \<and>
    (\<exists>d d'. adfDevOpen M f ADF_ACCESS_MODE_READWRITE = Some d \<and> adfDevMount M d = (0, d') \<and>
       adfVolMount M d' (sint n) ADF_ACCESS_MODE_READWRITE = Some v) \<and>
    (case adfReadRootBlock L v (rootBlock v) of (rc, root) \<Rightarrow>
       rc \<noteq> 0 \<or> b_bmFlag root = ADF_BM_VALID (K L))"
proof -
  have zero: "ADF_RC_OK (K L) = 0" using assms by (simp add: const_ok_def)
  obtain rc root where root: "adfReadRootBlock L v (rootBlock v) = (rc, root)"
    by (cases "adfReadRootBlock L v (rootBlock v)")
  obtain ok h' where alloc: "malloc h = (ok, h')" by (cases "malloc h")
  show ?thesis
    using bitmap_check [OF assms root] root alloc zero
    by (auto simp: adfimage_open_def mount_dev_def mount_volume_def access_mode_def Let_def
        split: if_split_asm option.splits prod.splits)
qed

end
