(* ===== verification/Time_Util.thy ===== *)
theory Time_Util
  imports Prelude
begin

section \<open>Time stamps: \<open>src/src/adffs_util.c\<close>\<close>

text \<open>
  \<open>gmtime_to_time_t\<close> and \<open>localtime_to_time_t\<close> fill a \<open>struct tm\<close> and hand it to \<open>timegm\<close>
  or \<open>mktime\<close>. \<open>timegm\<close> is modelled for every argument, months outside 0..11 included: it is
  the linear formula over the proleptic Gregorian calendar. \<open>mktime\<close> depends on the time
  zone of the process, which is the parameter \<open>tz\<close>: the seconds east of UTC that apply to
  a broken-down local time. As a specification, \<open>next_second\<close> is the calendar's own
  successor: a second after 23:59:59 of the last day of a month comes the first of the next. The
  code's parameters are ints; the numbers here are unbounded.
\<close>

record tm =
  tm_year :: int
  tm_mon :: int
  tm_mday :: int
  tm_hour :: int
  tm_min :: int
  tm_sec :: int
  tm_isdst :: int

definition leap_year :: "int \<Rightarrow> bool" where
  "leap_year y = (y mod 4 = 0 \<and> (y mod 100 \<noteq> 0 \<or> y mod 400 = 0))"

text \<open>Days of a year before the first of month \<open>m\<close> (0..11).\<close>

definition mon_yday :: "bool \<Rightarrow> nat \<Rightarrow> int" where
  "mon_yday leap m =
     ([0, 31, 59, 90, 120, 151, 181, 212, 243, 273, 304, 334] ! m) + (if leap \<and> 2 \<le> m then 1 else 0)"

text \<open>Days from 1 January 1970 to 1 January of year \<open>y\<close>.\<close>

definition days_to_year :: "int \<Rightarrow> int" where
  "days_to_year y = 365 * (y - 1970) + ((y - 1) div 4 - (y - 1) div 100 + (y - 1) div 400 - 477)"

definition timegm :: "tm \<Rightarrow> int" where
  "timegm t =
     (let y = tm_year t + 1900 + tm_mon t div 12;
          m = nat (tm_mon t mod 12)
      in (days_to_year y + mon_yday (leap_year y) m + tm_mday t - 1) * 86400
         + tm_hour t * 3600 + tm_min t * 60 + tm_sec t)"

definition mktime :: "(tm \<Rightarrow> int) \<Rightarrow> tm \<Rightarrow> int" where
  "mktime tz t = timegm t - tz t"

definition gmtime_to_time_t :: "int \<Rightarrow> int \<Rightarrow> int \<Rightarrow> int \<Rightarrow> int \<Rightarrow> int \<Rightarrow> int" where
  "gmtime_to_time_t year month day hour minute sec =
     timegm \<lparr>tm_year = year - 1900, tm_mon = month - 1, tm_mday = day,
             tm_hour = hour, tm_min = minute, tm_sec = sec, tm_isdst = 0\<rparr>"

definition localtime_to_time_t ::
  "(tm \<Rightarrow> int) \<Rightarrow> int \<Rightarrow> int \<Rightarrow> int \<Rightarrow> int \<Rightarrow> int \<Rightarrow> int \<Rightarrow> int" where
  "localtime_to_time_t tz year month day hour minute sec =
     mktime tz \<lparr>tm_year = year - 1900, tm_mon = month - 1, tm_mday = day,
                tm_hour = hour, tm_min = minute, tm_sec = sec, tm_isdst = - 1\<rparr>"

subsection \<open>The calendar\<close>

text \<open>A calendar time: year, month (1..12), day, hour, minute, second.\<close>

record civil =
  c_year :: int
  c_month :: int
  c_day :: int
  c_hour :: int
  c_min :: int
  c_sec :: int

definition month_days :: "int \<Rightarrow> int \<Rightarrow> int" where
  "month_days y m =
     (if m = 2 then (if leap_year y then 29 else 28)
      else if m = 4 \<or> m = 6 \<or> m = 9 \<or> m = 11 then 30 else 31)"

definition civil_ok :: "civil \<Rightarrow> bool" where
  "civil_ok c \<longleftrightarrow>
     1 \<le> c_month c \<and> c_month c \<le> 12 \<and> 1 \<le> c_day c \<and> c_day c \<le> month_days (c_year c) (c_month c) \<and>
     0 \<le> c_hour c \<and> c_hour c < 24 \<and> 0 \<le> c_min c \<and> c_min c < 60 \<and> 0 \<le> c_sec c \<and> c_sec c < 60"

definition next_day :: "civil \<Rightarrow> civil" where
  "next_day c =
     (if c_day c < month_days (c_year c) (c_month c) then c\<lparr>c_day := c_day c + 1\<rparr>
      else if c_month c < 12 then c\<lparr>c_month := c_month c + 1, c_day := 1\<rparr>
      else c\<lparr>c_year := c_year c + 1, c_month := 1, c_day := 1\<rparr>)"

definition next_second :: "civil \<Rightarrow> civil" where
  "next_second c =
     (if c_sec c < 59 then c\<lparr>c_sec := c_sec c + 1\<rparr>
      else if c_min c < 59 then c\<lparr>c_min := c_min c + 1, c_sec := 0\<rparr>
      else if c_hour c < 23 then c\<lparr>c_hour := c_hour c + 1, c_min := 0, c_sec := 0\<rparr>
      else next_day (c\<lparr>c_hour := 0, c_min := 0, c_sec := 0\<rparr>))"

definition epoch :: civil where
  "epoch = \<lparr>c_year = 1970, c_month = 1, c_day = 1, c_hour = 0, c_min = 0, c_sec = 0\<rparr>"

definition civil_to_time_t :: "civil \<Rightarrow> int" where
  "civil_to_time_t c =
     gmtime_to_time_t (c_year c) (c_month c) (c_day c) (c_hour c) (c_min c) (c_sec c)"

lemma div_step:
  fixes y n :: int
  assumes "0 < n"
  shows "y div n = (y - 1) div n + (if y mod n = 0 then 1 else 0)"
proof (cases "y mod n = 0")
  case True
  then have "y - 1 = n * (y div n - 1) + (n - 1)"
    using mult_div_mod_eq [of n y] by (simp add: algebra_simps)
  from int_div_pos_eq [OF this] assms have "(y - 1) div n = y div n - 1" by simp
  with True show ?thesis by simp
next
  case False
  then have "0 \<le> y mod n - 1" using assms by (simp add: order_less_le)
  moreover have "y mod n - 1 < n" using pos_mod_bound [OF assms, of y] by simp
  moreover have "y - 1 = n * (y div n) + (y mod n - 1)" by simp
  ultimately have "(y - 1) div n = y div n" by (rule int_div_pos_eq [rotated])
  with False show ?thesis by simp
qed

lemma leap_count:
  fixes y a b c a' b' c' :: int
  assumes "a' = a + (if p then 1 else 0)" "b' = b + (if q then 1 else 0)" "c' = c + (if r then 1 else 0)"
    and "r \<Longrightarrow> q" "q \<Longrightarrow> p"
  shows "365 * (y + 1 - 1970) + (a' - b' + c' - 477) =
    365 * (y - 1970) + (a - b + c - 477) + (if p \<and> (\<not> q \<or> r) then 366 else 365)"
  unfolding assms(1-3) using assms(4,5) by (cases p; cases q; cases r; simp)

lemma days_to_year_Suc: "days_to_year (y + 1) = days_to_year y + (if leap_year y then 366 else 365)"
proof -
  have "y mod 400 = 0 \<Longrightarrow> y mod 100 = 0" "y mod 100 = 0 \<Longrightarrow> y mod 4 = 0"
    by (auto simp: mod_eq_0_iff_dvd elim: dvd_trans [rotated])
  note mods = this
  show ?thesis
    unfolding days_to_year_def leap_year_def add_diff_cancel_right'
    by (rule leap_count [OF div_step div_step div_step mods]) (rule zero_less_numeral)+
qed

lemma month_cases:
  fixes m :: int
  assumes "1 \<le> m" "m \<le> 12"
  shows "m \<in> {1, 2, 3, 4, 5, 6, 7, 8, 9, 10, 11, 12}"
proof -
  have "{1..12::int} = {1, 2, 3, 4, 5, 6, 7, 8, 9, 10, 11, 12}" by (simp add: simp_from_to)
  with assms show ?thesis by (metis atLeastAtMost_iff)
qed

lemma civil_to_time_t_eq:
  assumes "1 \<le> c_month c" "c_month c \<le> 12"
  shows "civil_to_time_t c =
    (days_to_year (c_year c) + mon_yday (leap_year (c_year c)) (nat (c_month c - 1)) + c_day c - 1) * 86400
      + c_hour c * 3600 + c_min c * 60 + c_sec c"
  using assms by (simp add: civil_to_time_t_def gmtime_to_time_t_def timegm_def Let_def)

text \<open>The table of days before each month agrees with the lengths of the months.\<close>

lemma mon_yday_step:
  assumes "1 \<le> m" "m < 12"
  shows "mon_yday (leap_year y) (nat m) = mon_yday (leap_year y) (nat (m - 1)) + month_days y m"
  using month_cases [of m] assms by (auto simp: mon_yday_def month_days_def)

lemma mon_yday_year:
  "mon_yday (leap_year y) 11 + month_days y 12 = (if leap_year y then 366 else 365)"
  by (simp add: mon_yday_def month_days_def)

lemma next_day_time:
  assumes "1 \<le> c_month c" "c_month c \<le> 12" "c_day c \<le> month_days (c_year c) (c_month c)"
  shows "civil_to_time_t (next_day c) = civil_to_time_t c + 86400"
proof -
  consider "c_day c < month_days (c_year c) (c_month c)"
    | "c_day c = month_days (c_year c) (c_month c)" "c_month c < 12"
    | "c_day c = month_days (c_year c) (c_month c)" "c_month c = 12"
    using assms by linarith
  then show ?thesis
  proof cases
    case 1
    then show ?thesis using assms by (simp add: next_day_def civil_to_time_t_eq)
  next
    case 2
    then show ?thesis
      using assms mon_yday_step [of "c_month c" "c_year c"]
      by (simp add: next_day_def civil_to_time_t_eq)
  next
    case 3
    then show ?thesis
      using mon_yday_year [of "c_year c"] days_to_year_Suc [of "c_year c"]
      by (simp add: next_day_def civil_to_time_t_eq mon_yday_def split: if_splits)
  qed
qed

lemma next_second_time:
  assumes "civil_ok c"
  shows "civil_to_time_t (next_second c) = civil_to_time_t c + 1"
proof -
  note ok = assms [unfolded civil_ok_def]
  consider "c_sec c < 59" | "c_sec c = 59" "c_min c < 59"
    | "c_sec c = 59" "c_min c = 59" "c_hour c < 23"
    | "c_sec c = 59" "c_min c = 59" "c_hour c = 23"
    using ok by linarith
  then show ?thesis
  proof cases
    case 4
    then have "next_second c = next_day (c\<lparr>c_hour := 0, c_min := 0, c_sec := 0\<rparr>)"
      by (simp add: next_second_def)
    moreover have "civil_to_time_t (c\<lparr>c_hour := 0, c_min := 0, c_sec := 0\<rparr>) = civil_to_time_t c - 86399"
      using ok 4 by (simp add: civil_to_time_t_eq)
    ultimately show ?thesis using ok next_day_time [of "c\<lparr>c_hour := 0, c_min := 0, c_sec := 0\<rparr>"] by simp
  qed (use ok in \<open>simp_all add: next_second_def civil_to_time_t_eq\<close>)
qed

lemma month_days_pos: "1 \<le> month_days y m"
  by (simp add: month_days_def)

lemma next_day_ok: "civil_ok c \<Longrightarrow> civil_ok (next_day c)"
  using month_days_pos by (auto simp: next_day_def civil_ok_def)

lemma next_second_ok:
  assumes "civil_ok c"
  shows "civil_ok (next_second c)"
proof -
  from assms have "civil_ok (c\<lparr>c_hour := 0, c_min := 0, c_sec := 0\<rparr>)" by (simp add: civil_ok_def)
  then have "civil_ok (next_day (c\<lparr>c_hour := 0, c_min := 0, c_sec := 0\<rparr>))" by (rule next_day_ok)
  with assms show ?thesis by (auto simp: next_second_def civil_ok_def)
qed

lemma epoch_ok: "civil_ok epoch"
  by (simp add: epoch_def civil_ok_def month_days_def)

lemma epoch_time: "civil_to_time_t epoch = 0"
  by (simp add: epoch_def civil_to_time_t_def gmtime_to_time_t_def timegm_def days_to_year_def
      mon_yday_def)

text \<open>The calendar time \<open>n\<close> seconds after the epoch: the specification of \<open>gmtime\<close>.\<close>

definition civil_after :: "nat \<Rightarrow> civil" where
  "civil_after n = (next_second ^^ n) epoch"

text \<open>
  C20: \<open>gmtime_to_time_t\<close> of the calendar time \<open>n\<close> seconds after the epoch, counted by the
  calendar's own rules second by second, is \<open>n\<close>, for every \<open>n\<close>. The fields are unbounded here; those
  of the code are ints, so of it this holds as long as the year is one that an int holds.
\<close>

theorem gmtime_roundtrip:
  "civil_ok (civil_after n) \<and> civil_to_time_t (civil_after n) = int n"
proof (induction n)
  case 0
  show ?case by (simp add: civil_after_def epoch_ok epoch_time)
next
  case (Suc n)
  have "civil_after (Suc n) = next_second (civil_after n)" by (simp add: civil_after_def)
  with Suc show ?case by (simp add: next_second_ok next_second_time)
qed

subsection \<open>Order and local time\<close>

text \<open>The order of calendar times, most significant field first.\<close>

definition civil_less :: "civil \<Rightarrow> civil \<Rightarrow> bool" where
  "civil_less a b \<longleftrightarrow>
     c_year a < c_year b \<or> c_year a = c_year b \<and>
     (c_month a < c_month b \<or> c_month a = c_month b \<and>
     (c_day a < c_day b \<or> c_day a = c_day b \<and>
      c_hour a * 3600 + c_min a * 60 + c_sec a < c_hour b * 3600 + c_min b * 60 + c_sec b))"

lemma days_to_year_mono:
  assumes "y < z"
  shows "days_to_year y + (if leap_year y then 366 else 365) \<le> days_to_year z"
proof -
  have "days_to_year (y + 1) \<le> days_to_year (y + 1 + int n)" for n
  proof (induction n)
    case (Suc n)
    with days_to_year_Suc [of "y + 1 + int n"] show ?case by (simp add: algebra_simps split: if_splits)
  qed simp
  from this [of "nat (z - y - 1)"] assms days_to_year_Suc [of y] show ?thesis by simp
qed

lemma mon_yday_mono:
  assumes "1 \<le> m" "m < k" "k \<le> 12"
  shows "mon_yday (leap_year y) (nat (m - 1)) + month_days y m \<le> mon_yday (leap_year y) (nat (k - 1))"
proof -
  have "m + 1 + int n \<le> 12 \<Longrightarrow>
    mon_yday (leap_year y) (nat (m - 1)) + month_days y m \<le> mon_yday (leap_year y) (nat (m + int n))" for n
  proof (induction n)
    case 0
    then show ?case using mon_yday_step [of m y] assms(1) by simp
  next
    case (Suc n)
    then show ?case
      using mon_yday_step [of "m + int n + 1" y] month_days_pos [of y "m + int n + 1"] assms(1)
      by (simp add: algebra_simps)
  qed
  from this [of "nat (k - 1 - m)"] assms show ?thesis by simp
qed

lemma mon_yday_bounds:
  assumes "1 \<le> m" "m \<le> 12"
  shows "0 \<le> mon_yday (leap_year y) (nat (m - 1))"
    and "mon_yday (leap_year y) (nat (m - 1)) + month_days y m \<le> (if leap_year y then 366 else 365)"
  using month_cases [of m] assms by (auto simp: mon_yday_def month_days_def)

lemma civil_day_order:
  assumes "civil_ok a" "civil_ok b"
    and "c_year a < c_year b \<or> c_year a = c_year b \<and>
      (c_month a < c_month b \<or> c_month a = c_month b \<and> c_day a < c_day b)"
  shows "days_to_year (c_year a) + mon_yday (leap_year (c_year a)) (nat (c_month a - 1)) + c_day a
    < days_to_year (c_year b) + mon_yday (leap_year (c_year b)) (nat (c_month b - 1)) + c_day b"
  using assms(3)
proof (elim disjE conjE)
  assume "c_year a < c_year b"
  then show ?thesis
    using days_to_year_mono [of "c_year a" "c_year b"] mon_yday_bounds [of "c_month a" "c_year a"]
      mon_yday_bounds [of "c_month b" "c_year b"] assms(1,2) by (simp add: civil_ok_def)
next
  assume "c_year a = c_year b" "c_month a < c_month b"
  then show ?thesis
    using mon_yday_mono [of "c_month a" "c_month b" "c_year a"] assms(1,2)
    by (simp add: civil_ok_def)
qed simp

lemma day_second_less:
  fixes d e s t :: int
  assumes "d < e" "s < 86400" "0 \<le> t"
  shows "(d - 1) * 86400 + s < (e - 1) * 86400 + t"
proof -
  from assms(1) have "d * 86400 \<le> (e - 1) * 86400" by simp
  with assms(2,3) show ?thesis by (simp add: algebra_simps)
qed

text \<open>
  C39: \<open>gmtime_to_time_t\<close> is strictly increasing in the calendar order: of two valid times,
  before and after the epoch alike, the later one has the larger time stamp.
\<close>

theorem gmtime_to_time_t_strict_mono:
  assumes "civil_ok a" "civil_ok b" "civil_less a b"
  shows "civil_to_time_t a < civil_to_time_t b"
proof -
  let ?day = "\<lambda>c. days_to_year (c_year c) + mon_yday (leap_year (c_year c)) (nat (c_month c - 1)) + c_day c"
  let ?sec = "\<lambda>c. c_hour c * 3600 + c_min c * 60 + c_sec c"
  have secs: "0 \<le> ?sec a" "?sec a < 86400" "0 \<le> ?sec b" "?sec b < 86400"
    using assms(1,2) by (auto simp: civil_ok_def)
  have eqs: "civil_to_time_t a = (?day a - 1) * 86400 + ?sec a" "civil_to_time_t b = (?day b - 1) * 86400 + ?sec b"
    using assms(1,2) by (simp_all add: civil_to_time_t_eq civil_ok_def)
  show ?thesis
  proof (cases "c_year a = c_year b \<and> c_month a = c_month b \<and> c_day a = c_day b")
    case True
    with assms(3) have "?sec a < ?sec b" by (simp add: civil_less_def)
    with True show ?thesis unfolding eqs by simp
  next
    case False
    with assms(3) have "c_year a < c_year b \<or> c_year a = c_year b \<and>
      (c_month a < c_month b \<or> c_month a = c_month b \<and> c_day a < c_day b)"
      by (auto simp: civil_less_def)
    then have "?day a < ?day b" by (rule civil_day_order [OF assms(1,2)])
    then show ?thesis unfolding eqs using secs by (intro day_second_less) simp_all
  qed
qed

text \<open>
  In a zone with a fixed offset, local time is universal time minus the offset, whatever the
  daylight saving flag says.
\<close>

lemma localtime_fixed_zone:
  "localtime_to_time_t (\<lambda>_. off) y mo d h mi s = gmtime_to_time_t y mo d h mi s - off"
  by (simp add: localtime_to_time_t_def gmtime_to_time_t_def mktime_def timegm_def)

end
