(* ===== verification/C_Printf.thy ===== *)
theory C_Printf
  imports Prelude
begin

section \<open>The C library's formatted output\<close>

text \<open>
  The directives of \<open>printf\<close> the program uses: \<open>%d\<close>, \<open>%u\<close>, \<open>%o\<close>, \<open>%x\<close>, \<open>%s\<close> and \<open>%%\<close>, with the
  flag \<open>0\<close>, a field width, and the length modifiers \<open>l\<close> and \<open>ll\<close>. The arguments have the
  machine's sizes (\<open>int\<close> 32, \<open>long\<close>, \<open>long long\<close> and pointers 64 bits). A directive without its
  argument, with one of another size, or with a null string is undefined: \<open>None\<close>.
\<close>

subsection \<open>Numbers\<close>

definition digit_char :: "nat \<Rightarrow> char" where
  "digit_char d = char_of (if d < 10 then 48 + d else 87 + d)"

definition digit_value :: "char \<Rightarrow> nat" where
  "digit_value c = (let n = of_char c in if n < 58 then n - 48 else n - 87)"

function digits :: "nat \<Rightarrow> nat \<Rightarrow> string" where
  "digits b n = (if n < b \<or> b < 2 then [digit_char n] else digits b (n div b) @ [digit_char (n mod b)])"
  by pat_completeness auto
termination
  by (relation "measure snd") (auto intro!: div_less_dividend)

declare digits.simps [simp del]

definition pad :: "bool \<Rightarrow> nat \<Rightarrow> string \<Rightarrow> string \<Rightarrow> string" where
  "pad zero width sign s =
     (let fill = width - length (sign @ s)
      in if zero then sign @ replicate fill CHR ''0'' @ s else replicate fill CHR '' '' @ sign @ s)"

definition signed_text :: "bool \<Rightarrow> nat \<Rightarrow> int \<Rightarrow> string" where
  "signed_text zero width i =
     pad zero width (if i < 0 then ''-'' else []) (digits 10 (nat \<bar>i\<bar>))"

definition unsigned_text :: "bool \<Rightarrow> nat \<Rightarrow> nat \<Rightarrow> nat \<Rightarrow> string" where
  "unsigned_text zero width b n = pad zero width [] (digits b n)"

subsection \<open>Directives\<close>

datatype vararg =
    Int32 "32 word"
  | Int64 "64 word"
  | Str "string option"

record directive =
  zero_flag :: bool
  width :: nat
  wide :: bool
  conversion :: char

definition is_digit_char :: "char \<Rightarrow> bool" where
  "is_digit_char c = (let n = (of_char c :: nat) in 48 \<le> n \<and> n < 58)"

definition width_of :: "string \<Rightarrow> nat" where
  "width_of ds = foldl (\<lambda>n c. n * 10 + digit_value c) 0 ds"

text \<open>What follows a \<open>%\<close>: the directive and the rest of the format.\<close>

definition directive_of :: "string \<Rightarrow> (directive \<times> string) option" where
  "directive_of f =
     (let z = (f \<noteq> [] \<and> hd f = CHR ''0'');
          f1 = dropWhile (\<lambda>c. c = CHR ''0'') f;
          f2 = dropWhile is_digit_char f1;
          f3 = dropWhile (\<lambda>c. c = CHR ''l'') f2
      in case f3 of
           [] \<Rightarrow> None
         | c # rest \<Rightarrow>
             Some (\<lparr>zero_flag = z, width = width_of (takeWhile is_digit_char f1),
                    wide = (length f3 < length f2), conversion = c\<rparr>, rest))"

definition base_of :: "char \<Rightarrow> nat" where
  "base_of c = (if c = CHR ''o'' then 8 else if c = CHR ''x'' then 16 else 10)"

definition convert :: "directive \<Rightarrow> vararg \<Rightarrow> string option" where
  "convert d a =
     (let c = conversion d in
      case a of
        Int32 w \<Rightarrow>
          if wide d then None
          else if c = CHR ''d'' then Some (signed_text (zero_flag d) (width d) (sint w))
          else if c \<in> {CHR ''u'', CHR ''o'', CHR ''x''}
               then Some (unsigned_text (zero_flag d) (width d) (base_of c) (unat w))
          else None
      | Int64 w \<Rightarrow>
          if \<not> wide d then None
          else if c = CHR ''d'' then Some (signed_text (zero_flag d) (width d) (sint w))
          else if c \<in> {CHR ''u'', CHR ''o'', CHR ''x''}
               then Some (unsigned_text (zero_flag d) (width d) (base_of c) (unat w))
          else None
      | Str s \<Rightarrow>
          if c = CHR ''s'' \<and> \<not> wide d then map_option (pad False (width d) []) s else None)"

subsection \<open>The formatted text\<close>

lemma directive_of_shorter: "directive_of f = Some (d, rest) \<Longrightarrow> length rest < length f"
proof -
  assume "directive_of f = Some (d, rest)"
  then obtain c where
    "dropWhile (\<lambda>c. c = CHR ''l'') (dropWhile is_digit_char (dropWhile (\<lambda>c. c = CHR ''0'') f)) = c # rest"
    by (auto simp: directive_of_def Let_def split: list.split_asm)
  then have "length (c # rest) \<le> length f"
    by (metis length_dropWhile_le order_trans)
  then show ?thesis by simp
qed

function format :: "string \<Rightarrow> vararg list \<Rightarrow> string option" where
  "format [] args = Some []"
| "format (c # f) args =
     (if c \<noteq> CHR ''%'' then map_option (Cons c) (format f args)
      else case directive_of f of
             None \<Rightarrow> None
           | Some (d, rest) \<Rightarrow>
               if conversion d = CHR ''%'' then map_option (Cons CHR ''%'') (format rest args)
               else case args of
                      [] \<Rightarrow> None
                    | a # args' \<Rightarrow> do { s \<leftarrow> convert d a; t \<leftarrow> format rest args'; Some (s @ t) })"
  by pat_completeness auto
termination
  by (relation "measure (\<lambda>(f, args). length f)") (auto dest: directive_of_shorter)

declare format.simps [simp del]

subsection \<open>Facts\<close>

lemma digit_value_char [simp]: "d < 16 \<Longrightarrow> digit_value (digit_char d) = d"
  by (simp add: digit_value_def digit_char_def Let_def)

text \<open>What was printed reads back as the number.\<close>

lemma value_of_digits:
  assumes "2 \<le> b" "b \<le> 16"
  shows "foldl (\<lambda>m c. m * b + digit_value c) 0 (digits b n) = n"
proof (induction n rule: less_induct)
  case (less n)
  show ?case
  proof (cases "n < b")
    case True
    with assms show ?thesis by (simp add: digits.simps)
  next
    case False
    with assms have "n div b < n" by (simp add: div_less_dividend)
    note IH = less.IH [OF this]
    have "n mod b < 16" using assms by (simp add: less_le_trans [OF mod_less_divisor])
    moreover have "digits b n = digits b (n div b) @ [digit_char (n mod b)]"
      using False assms by (simp add: digits.simps [of b n])
    ultimately show ?thesis by (simp add: IH)
  qed
qed

lemma digits_inject:
  assumes "2 \<le> b" "b \<le> 16" "digits b m = digits b n"
  shows "m = n"
  by (metis value_of_digits assms)

lemma format_plain: "CHR ''%'' \<notin> set f \<Longrightarrow> format f args = Some f"
  by (induction f) (auto simp: format.simps)

lemma format_plain_append:
  "CHR ''%'' \<notin> set f \<Longrightarrow> format (f @ g) args = map_option ((@) f) (format g args)"
  by (induction f; cases "format g args") (auto simp: format.simps)

lemma format_directive:
  assumes "directive_of f = Some (d, rest)" "conversion d \<noteq> CHR ''%''" "convert d a = Some s"
  shows "format (CHR ''%'' # f) (a # args) = map_option ((@) s) (format rest args)"
  using assms by (cases "format rest args") (simp_all add: format.simps)

lemma format_bad:
  assumes "directive_of f = Some (d, rest)" "conversion d \<noteq> CHR ''%''" "convert d a = None"
  shows "format (CHR ''%'' # f) (a # args) = None"
  using assms by (simp add: format.simps)

text \<open>The directives of the program.\<close>

lemma directives:
  "directive_of (CHR ''s'' # r) = Some (\<lparr>zero_flag = False, width = 0, wide = False, conversion = CHR ''s''\<rparr>, r)"
  "directive_of (CHR ''d'' # r) = Some (\<lparr>zero_flag = False, width = 0, wide = False, conversion = CHR ''d''\<rparr>, r)"
  "directive_of (CHR ''u'' # r) = Some (\<lparr>zero_flag = False, width = 0, wide = False, conversion = CHR ''u''\<rparr>, r)"
  "directive_of (CHR ''o'' # r) = Some (\<lparr>zero_flag = False, width = 0, wide = False, conversion = CHR ''o''\<rparr>, r)"
  "directive_of (CHR ''l'' # CHR ''d'' # r) =
    Some (\<lparr>zero_flag = False, width = 0, wide = True, conversion = CHR ''d''\<rparr>, r)"
  "directive_of (CHR ''l'' # CHR ''x'' # r) =
    Some (\<lparr>zero_flag = False, width = 0, wide = True, conversion = CHR ''x''\<rparr>, r)"
  "directive_of (CHR ''l'' # CHR ''l'' # CHR ''d'' # r) =
    Some (\<lparr>zero_flag = False, width = 0, wide = True, conversion = CHR ''d''\<rparr>, r)"
  "directive_of (CHR ''0'' # CHR ''5'' # CHR ''o'' # r) =
    Some (\<lparr>zero_flag = True, width = 5, wide = False, conversion = CHR ''o''\<rparr>, r)"
  "directive_of (CHR ''0'' # CHR ''8'' # CHR ''x'' # r) =
    Some (\<lparr>zero_flag = True, width = 8, wide = False, conversion = CHR ''x''\<rparr>, r)"
  "directive_of (CHR ''0'' # CHR ''8'' # CHR ''l'' # CHR ''x'' # r) =
    Some (\<lparr>zero_flag = True, width = 8, wide = True, conversion = CHR ''x''\<rparr>, r)"
  "directive_of (CHR ''0'' # CHR ''1'' # CHR ''6'' # CHR ''l'' # CHR ''l'' # CHR ''x'' # r) =
    Some (\<lparr>zero_flag = True, width = 16, wide = True, conversion = CHR ''x''\<rparr>, r)"
  by (simp_all add: directive_of_def Let_def is_digit_char_def width_of_def digit_value_def)

lemma convert_simps:
  "convert \<lparr>zero_flag = z, width = n, wide = False, conversion = CHR ''d''\<rparr> (Int32 i) = Some (signed_text z n (sint i))"
  "convert \<lparr>zero_flag = z, width = n, wide = False, conversion = CHR ''u''\<rparr> (Int32 i) = Some (unsigned_text z n 10 (unat i))"
  "convert \<lparr>zero_flag = z, width = n, wide = False, conversion = CHR ''o''\<rparr> (Int32 i) = Some (unsigned_text z n 8 (unat i))"
  "convert \<lparr>zero_flag = z, width = n, wide = False, conversion = CHR ''x''\<rparr> (Int32 i) = Some (unsigned_text z n 16 (unat i))"
  "convert \<lparr>zero_flag = z, width = n, wide = True, conversion = CHR ''d''\<rparr> (Int64 l) = Some (signed_text z n (sint l))"
  "convert \<lparr>zero_flag = z, width = n, wide = True, conversion = CHR ''x''\<rparr> (Int64 l) = Some (unsigned_text z n 16 (unat l))"
  "convert \<lparr>zero_flag = z, width = n, wide = False, conversion = c\<rparr> (Int64 l) = None"
  "convert \<lparr>zero_flag = z, width = n, wide = True, conversion = c\<rparr> (Int32 i) = None"
  "convert \<lparr>zero_flag = False, width = 0, wide = False, conversion = CHR ''s''\<rparr> (Str s) = s"
  by (simp_all add: convert_def base_of_def pad_def)
    (cases s; simp add: pad_def)

lemmas format_eval = format.simps directives convert_simps

text \<open>Whether a format is defined, without its text.\<close>

lemma format_None:
  "format [] args \<noteq> None"
  "c \<noteq> CHR ''%'' \<Longrightarrow> (format (c # f) args = None) = (format f args = None)"
  "directive_of f = Some (d, rest) \<Longrightarrow> conversion d \<noteq> CHR ''%'' \<Longrightarrow>
    (format (CHR ''%'' # f) (a # args) = None) = (convert d a = None \<or> format rest args = None)"
  by (auto simp: format.simps bind_eq_None_conv)

end
