(* ===== verification/Log.thy ===== *)
theory Log
  imports C_Printf
begin

section \<open>The log file: \<open>src/src/log.c\<close> and \<open>src/src/adffs_log.c\<close>\<close>

text \<open>
  \<open>log.c\<close> opens, writes and closes a log file; \<open>adffs_log.c\<close> keeps the one log of the program
  in a static pointer and prints the structures of FUSE. The state is the list of the streams
  ever opened, that pointer, and what was written to the standard streams. Writing to or closing a stream that is closed is undefined.

  The lemmas: without a log file everything here does nothing; with one, each operation only
  appends to it (the locale \<open>log_writer\<close>, interpreted for every function that writes); what
  the messages of a run leave in the file; and where the pointer or an argument of a message
  goes wrong.
\<close>

subsection \<open>Streams\<close>

record stream =
  s_path :: string
  s_text :: string
  s_open :: bool

record log_state =
  streams :: "stream list"
  flog :: "nat option"
  stdout :: string
  stderr :: string

definition fclose :: "nat \<Rightarrow> log_state \<Rightarrow> log_state option" where
  "fclose h ls =
     (if h < length (streams ls) \<and> s_open (streams ls ! h)
      then Some (ls\<lparr>streams := (streams ls)[h := (streams ls ! h)\<lparr>s_open := False\<rparr>]\<rparr>) else None)"

definition fputs :: "string \<Rightarrow> nat \<Rightarrow> log_state \<Rightarrow> log_state option" where
  "fputs s h ls =
     (if h < length (streams ls) \<and> s_open (streams ls ! h)
      then Some (ls\<lparr>streams := (streams ls)[h := (streams ls ! h)\<lparr>s_text := s_text (streams ls ! h) @ s\<rparr>]\<rparr>)
      else None)"

text \<open>\<open>printf\<close> and \<open>fprintf ( stderr, ... )\<close>.\<close>

definition print_out :: "string \<Rightarrow> vararg list \<Rightarrow> log_state \<Rightarrow> log_state option" where
  "print_out fmt args ls = do { s \<leftarrow> format fmt args; Some (ls\<lparr>stdout := stdout ls @ s\<rparr>) }"

definition print_err :: "string \<Rightarrow> vararg list \<Rightarrow> log_state \<Rightarrow> log_state option" where
  "print_err fmt args ls = do { s \<leftarrow> format fmt args; Some (ls\<lparr>stderr := stderr ls @ s\<rparr>) }"

text \<open>\<open>va_list\<close>: \<open>None\<close> for one that was never started.\<close>

type_synonym va_list = "vararg list option"

definition vfprintf :: "nat \<Rightarrow> string \<Rightarrow> va_list \<Rightarrow> log_state \<Rightarrow> log_state option" where
  "vfprintf h fmt ap ls = do {
     args \<leftarrow> ap;
     s \<leftarrow> format fmt args;
     fputs s h ls
   }"

subsection \<open>\<open>log.c\<close>\<close>

text \<open>
  \<open>F\<close> says for a path why opening it for writing fails, in the words of \<open>strerror\<close>, or
  \<open>None\<close> when it succeeds.
\<close>

definition log_open ::
  "(string \<Rightarrow> string option) \<Rightarrow> string \<Rightarrow> log_state \<Rightarrow> (nat option \<times> log_state) option" where
  "log_open F log_file_path ls =
     (case F log_file_path of
        Some e \<Rightarrow> do {
          ls' \<leftarrow> print_err ''Error opening log file %s: %s'' [Str (Some log_file_path), Str (Some e)] ls;
          Some (None, ls')
        }
      | None \<Rightarrow>
          Some (Some (length (streams ls)),
            ls\<lparr>streams := streams ls @ [\<lparr>s_path = log_file_path, s_text = [], s_open = True\<rparr>]\<rparr>))"

definition log_close :: "nat option \<Rightarrow> log_state \<Rightarrow> log_state option" where
  "log_close f ls = (case f of None \<Rightarrow> Some ls | Some h \<Rightarrow> fclose h ls)"

definition vlog_info :: "nat option \<Rightarrow> string \<Rightarrow> va_list \<Rightarrow> log_state \<Rightarrow> log_state option" where
  "vlog_info f fmt ap ls =
     (case f of
        None \<Rightarrow> Some ls
      | Some h \<Rightarrow> do {
          ls1 \<leftarrow> vfprintf h fmt ap ls;
          vfprintf h ''\<newline>'' (Some []) ls1
        })"

text \<open>\<open>log_info\<close> declares its \<open>va_list\<close> and passes it on without having started it.\<close>

definition log_info :: "nat option \<Rightarrow> string \<Rightarrow> vararg list \<Rightarrow> log_state \<Rightarrow> log_state option" where
  "log_info f fmt args ls = vlog_info f fmt None ls"

definition log_error :: "string \<Rightarrow> nat option \<Rightarrow> string \<Rightarrow> log_state \<Rightarrow> log_state option" where
  "log_error errtext f error_context ls =
     log_info f ''ERROR %s: %s\<newline>'' [Str (Some error_context), Str (Some errtext)] ls"

subsection \<open>\<open>adffs_log.c\<close>: the log of the program\<close>

definition adffs_log_open ::
  "(string \<Rightarrow> string option) \<Rightarrow> string \<Rightarrow> log_state \<Rightarrow> (nat option \<times> log_state) option" where
  "adffs_log_open F log_file_path ls = do {
     (f, ls') \<leftarrow> log_open F log_file_path ls;
     Some (f, ls'\<lparr>flog := f\<rparr>)
   }"

definition adffs_log_close :: "log_state \<Rightarrow> log_state option" where
  "adffs_log_close ls = log_close (flog ls) ls"

definition adffs_log_info :: "string \<Rightarrow> vararg list \<Rightarrow> log_state \<Rightarrow> log_state option" where
  "adffs_log_info fmt args ls =
     (if flog ls = None then Some ls else vlog_info (flog ls) fmt (Some args) ls)"

subsection \<open>\<open>adffs_log.c\<close>: the structures\<close>

text \<open>The structures with the sizes their fields have on Linux for 64-bit machines.\<close>

record stat_dump =
  sd_dev :: "64 word"
  sd_ino :: "64 word"
  sd_mode :: "32 word"
  sd_nlink :: "64 word"
  sd_uid :: "32 word"
  sd_gid :: "32 word"
  sd_rdev :: "64 word"
  sd_size :: "64 word"
  sd_blksize :: "64 word"
  sd_blocks :: "64 word"
  sd_atime :: "64 word"
  sd_mtime :: "64 word"
  sd_ctime :: "64 word"

definition adffs_log_stat :: "stat_dump \<Rightarrow> log_state \<Rightarrow> log_state option" where
  "adffs_log_stat st =
     adffs_log_info
       (''\<newline>stat {\<newline>'' @
        ''    .st_dev     = %lld\<newline>'' @
        ''    .st_ino     = %lld\<newline>'' @
        ''    .st_mode    = 0%o\<newline>'' @
        ''    .st_nlink   = %d\<newline>'' @
        ''    .st_uid     = %d\<newline>'' @
        ''    .st_gid     = %lld\<newline>'' @
        ''    .st_rdev    = %lld\<newline>'' @
        ''    .st_size    = %lld\<newline>'' @
        ''    .st_blksize = %ld\<newline>'' @
        ''    .st_blocks  = %lld\<newline>'' @
        ''    .st_atime   = 0x%08lx\<newline>'' @
        ''    .st_mtime   = 0x%08lx\<newline>'' @
        ''    .st_ctime   = 0x%08lx }\<newline>'')
       [Int64 (sd_dev st), Int64 (sd_ino st), Int32 (sd_mode st), Int64 (sd_nlink st), Int32 (sd_uid st),
        Int32 (sd_gid st), Int64 (sd_rdev st), Int64 (sd_size st), Int64 (sd_blksize st), Int64 (sd_blocks st),
        Int64 (sd_atime st), Int64 (sd_mtime st), Int64 (sd_ctime st)]"

record statvfs_dump =
  vd_bsize :: "64 word"
  vd_frsize :: "64 word"
  vd_blocks :: "64 word"
  vd_bfree :: "64 word"
  vd_bavail :: "64 word"
  vd_files :: "64 word"
  vd_ffree :: "64 word"
  vd_favail :: "64 word"
  vd_fsid :: "64 word"
  vd_flag :: "64 word"
  vd_namemax :: "64 word"

definition adffs_log_statvfs :: "statvfs_dump \<Rightarrow> log_state \<Rightarrow> log_state option" where
  "adffs_log_statvfs sv =
     adffs_log_info
       (''\<newline>statvfs {\<newline>'' @
        ''    .f_bsize   = %ld\<newline>'' @
        ''    .f_frsize  = %ld\<newline>'' @
        ''    .f_blocks  = %lld\<newline>'' @
        ''    .f_bfree   = %lld\<newline>'' @
        ''    .f_bavail  = %lld\<newline>'' @
        ''    .f_files   = %lld\<newline>'' @
        ''    .f_ffree   = %lld\<newline>'' @
        ''    .f_favail  = %lld\<newline>'' @
        ''    .f_fsid    = %ld\<newline>'' @
        ''    .f_flag    = 0x%08lx\<newline>'' @
        ''    .f_namemax = %ld } \<newline>'')
       [Int64 (vd_bsize sv), Int64 (vd_frsize sv), Int64 (vd_blocks sv), Int64 (vd_bfree sv),
        Int64 (vd_bavail sv), Int64 (vd_files sv), Int64 (vd_ffree sv), Int64 (vd_favail sv),
        Int64 (vd_fsid sv), Int64 (vd_flag sv), Int64 (vd_namemax sv)]"

text \<open>The context with what its \<open>private_data\<close> points to.\<close>

record context_dump =
  cd_fuse :: "64 word"
  cd_uid :: "32 word"
  cd_gid :: "32 word"
  cd_pid :: "32 word"
  cd_umask :: "32 word"
  cd_private_data :: "64 word"
  cd_logfile :: "64 word"
  cd_mountpoint :: "string option"

definition adffs_log_fuse_context :: "context_dump \<Rightarrow> log_state \<Rightarrow> log_state option" where
  "adffs_log_fuse_context c ls = do {
     ls1 \<leftarrow> adffs_log_info
       (''\<newline>fuse_context {\<newline>'' @
        ''    .fuse  = 0x%lx\<newline>'' @
        ''    .uid   = %d\<newline>'' @
        ''    .gid   = %d\<newline>'' @
        ''    .pid   = %d\<newline>'' @
        ''    .umask = %05o\<newline>'')
       [Int64 (cd_fuse c), Int32 (cd_uid c), Int32 (cd_gid c), Int32 (cd_pid c), Int32 (cd_umask c)] ls;
     adffs_log_info
       (''    .private_data = 0x%lx\<newline>'' @
        ''    .logfile      = 0x%lx\<newline>'' @
        ''    .mountpoint   = %s } \<newline>'')
       [Int64 (cd_private_data c), Int64 (cd_logfile c), Str (cd_mountpoint c)] ls1
   }"

record conn_dump =
  nd_proto_major :: "32 word"
  nd_proto_minor :: "32 word"
  nd_async_read :: "32 word"
  nd_max_write :: "32 word"
  nd_max_readahead :: "32 word"
  nd_capable :: "32 word"
  nd_want :: "32 word"
  nd_max_background :: "32 word"
  nd_congestion_threshold :: "32 word"

definition adffs_log_fuse_conn_info :: "conn_dump \<Rightarrow> log_state \<Rightarrow> log_state option" where
  "adffs_log_fuse_conn_info n =
     adffs_log_info
       (''\<newline>fuse_conn_info {\<newline>'' @
        ''    .proto_major          = %d\<newline>'' @
        ''    .proto_minor          = %d\<newline>'' @
        ''    .async_read           = %d\<newline>'' @
        ''    .max_write            = %d\<newline>'' @
        ''    .max_readahead        = %d\<newline>'' @
        ''    .capable              = 0x%08x\<newline>'' @
        ''    .want                 = 0x%08x\<newline>'' @
        ''    .max_background       = %d\<newline>'' @
        ''    .congestion_threshold = %d\<newline>'')
       [Int32 (nd_proto_major n), Int32 (nd_proto_minor n), Int32 (nd_async_read n), Int32 (nd_max_write n),
        Int32 (nd_max_readahead n), Int32 (nd_capable n), Int32 (nd_want n), Int32 (nd_max_background n),
        Int32 (nd_congestion_threshold n)]"

text \<open>The flags of one bit are promoted to \<open>int\<close>.\<close>

record file_dump =
  fd_flags :: "32 word"
  fd_writepage :: "32 word"
  fd_direct_io :: bool
  fd_keep_cache :: bool
  fd_flush :: bool
  fd_nonseekable :: bool
  fd_flock_release :: bool
  fd_fh :: "64 word"
  fd_lock_owner :: "64 word"

definition adffs_log_fuse_file_info :: "file_dump \<Rightarrow> log_state \<Rightarrow> log_state option" where
  "adffs_log_fuse_file_info f =
     adffs_log_info
       (''\<newline>fuse_file_info { \<newline>'' @
        ''    .flags         = 0x%08x\<newline>'' @
        ''    .writepage     = %d\<newline>'' @
        ''    .direct_io     = %d\<newline>'' @
        ''    .keep_cache    = %d\<newline>'' @
        ''    .flush         = %d\<newline>'' @
        ''    .nonseekable   = %d\<newline>'' @
        ''    .flock_release = %d\<newline>'' @
        ''    .fh            = 0x%016llx\<newline>'' @
        ''    .lock_owner    = 0x%016llx }\<newline>'')
       [Int32 (fd_flags f), Int32 (fd_writepage f), Int32 (of_bool (fd_direct_io f)),
        Int32 (of_bool (fd_keep_cache f)), Int32 (of_bool (fd_flush f)), Int32 (of_bool (fd_nonseekable f)),
        Int32 (of_bool (fd_flock_release f)), Int64 (fd_fh f), Int64 (fd_lock_owner f)]"

subsection \<open>Writers\<close>

text \<open>A state in which the log, if there is one, can be written.\<close>

definition log_ready :: "log_state \<Rightarrow> bool" where
  "log_ready ls = (case flog ls of None \<Rightarrow> True | Some h \<Rightarrow> h < length (streams ls) \<and> s_open (streams ls ! h))"

text \<open>The state after \<open>t\<close> has been added to the log.\<close>

definition log_added :: "string \<Rightarrow> log_state \<Rightarrow> log_state" where
  "log_added t ls =
     (case flog ls of
        None \<Rightarrow> ls
      | Some h \<Rightarrow> ls\<lparr>streams := (streams ls)[h := (streams ls ! h)\<lparr>s_text := s_text (streams ls ! h) @ t\<rparr>]\<rparr>)"

lemma log_added_frame [simp]:
  "flog (log_added t ls) = flog ls" "stderr (log_added t ls) = stderr ls" "stdout (log_added t ls) = stdout ls"
  "length (streams (log_added t ls)) = length (streams ls)" "log_ready (log_added t ls) = log_ready ls"
  by (auto simp: log_added_def log_ready_def split: option.splits)

lemma log_added_other: "flog ls \<noteq> Some i \<Longrightarrow> streams (log_added t ls) ! i = streams ls ! i"
  by (auto simp: log_added_def split: option.splits)

lemma log_added_added [simp]:
  assumes "log_ready ls"
  shows "log_added u (log_added t ls) = log_added (t @ u) ls"
  using assms by (auto simp: log_added_def log_ready_def split: option.splits)

lemma log_added_Nil [simp]:
  assumes "log_ready ls"
  shows "log_added [] ls = ls"
  using assms by (auto simp: log_added_def log_ready_def split: option.splits)

lemma fputs_ready: "log_ready ls \<Longrightarrow> flog ls = Some h \<Longrightarrow> fputs t h ls = Some (log_added t ls)"
  by (simp add: fputs_def log_ready_def log_added_def)

lemma fputs_closed: "\<not> log_ready ls \<Longrightarrow> flog ls = Some h \<Longrightarrow> fputs t h ls = None"
  by (auto simp: fputs_def log_ready_def)

lemma vfprintf_bind: "vfprintf h fmt ap ls = Option.bind (Option.bind ap (format fmt)) (\<lambda>s. fputs s h ls)"
  by (cases ap) (simp_all add: vfprintf_def)

lemma newline_format: "format ''\<newline>'' args = Some ''\<newline>''"
  by (rule format_plain) simp

text \<open>What logging a message comes to.\<close>

lemma adffs_log_info_eq:
  "adffs_log_info fmt args ls =
     (if flog ls = None then Some ls
      else if log_ready ls then map_option (\<lambda>t. log_added (t @ ''\<newline>'') ls) (format fmt args) else None)"
proof (cases "flog ls")
  case (Some h)
  show ?thesis
  proof (cases "log_ready ls")
    case True
    with Some show ?thesis
      by (cases "format fmt args")
        (simp_all add: adffs_log_info_def vlog_info_def vfprintf_bind newline_format fputs_ready)
  next
    case False
    with Some show ?thesis
      by (cases "format fmt args") (simp_all add: adffs_log_info_def vlog_info_def vfprintf_bind fputs_closed)
  qed
qed (simp add: adffs_log_info_def)

text \<open>The contract of everything that writes: without a log nothing, with one only more text.\<close>

locale log_writer =
  fixes write_log :: "log_state \<Rightarrow> log_state option"
  assumes silent: "flog ls = None \<Longrightarrow> write_log ls = Some ls"
    and appends: "write_log ls = Some ls' \<Longrightarrow> flog ls \<noteq> None \<Longrightarrow> log_ready ls \<and> (\<exists>t. ls' = log_added t ls)"
begin

lemma result: "write_log ls = Some ls' \<Longrightarrow> \<exists>t. ls' = log_added t ls"
  using silent [of ls] appends [of ls ls'] by (cases "flog ls") (auto simp: log_added_def)

lemma keeps_ready: "write_log ls = Some ls' \<Longrightarrow> log_ready ls' = log_ready ls"
  using result by force

lemma keeps_log: "write_log ls = Some ls' \<Longrightarrow> flog ls' = flog ls"
  using result by force

lemma keeps_streams:
  "write_log ls = Some ls' \<Longrightarrow> flog ls \<noteq> Some i \<Longrightarrow> length (streams ls') = length (streams ls) \<and> streams ls' ! i = streams ls ! i"
  using result log_added_other by fastforce

lemma closed: "\<not> log_ready ls \<Longrightarrow> write_log ls = None"
  using appends [of ls] by (cases "write_log ls"; cases "flog ls") (auto simp: log_ready_def)

end

interpretation adffs_log_info: log_writer "adffs_log_info fmt args" for fmt args
  by unfold_locales (auto simp: adffs_log_info_eq split: if_split_asm)

text \<open>Two writers, one after the other, are one.\<close>

lemma log_writer_bind:
  assumes "log_writer f" "log_writer g"
  shows "log_writer (\<lambda>ls. Option.bind (f ls) g)"
proof
  show "Option.bind (f ls) g = Some ls" if "flog ls = None" for ls
    using log_writer.silent [OF assms(1) that] log_writer.silent [OF assms(2) that] by simp
next
  fix ls ls'
  assume "Option.bind (f ls) g = Some ls'" and some: "flog ls \<noteq> None"
  then obtain ls1 where s: "f ls = Some ls1" "g ls1 = Some ls'" by (auto simp: bind_Some_iff)
  from log_writer.appends [OF assms(1) s(1) some] obtain t where r: "log_ready ls" "ls1 = log_added t ls" by blast
  from log_writer.appends [OF assms(2) s(2)] r some obtain u where "ls' = log_added u ls1" by auto
  with r show "log_ready ls \<and> (\<exists>t. ls' = log_added t ls)" by auto
qed

interpretation adffs_log_stat: log_writer "adffs_log_stat st" for st
  unfolding adffs_log_stat_def by (rule adffs_log_info.log_writer_axioms)

interpretation adffs_log_statvfs: log_writer "adffs_log_statvfs sv" for sv
  unfolding adffs_log_statvfs_def by (rule adffs_log_info.log_writer_axioms)

interpretation adffs_log_fuse_conn_info: log_writer "adffs_log_fuse_conn_info n" for n
  unfolding adffs_log_fuse_conn_info_def by (rule adffs_log_info.log_writer_axioms)

interpretation adffs_log_fuse_file_info: log_writer "adffs_log_fuse_file_info f" for f
  unfolding adffs_log_fuse_file_info_def by (rule adffs_log_info.log_writer_axioms)

interpretation adffs_log_fuse_context: log_writer "adffs_log_fuse_context c" for c
  unfolding adffs_log_fuse_context_def
  by (rule log_writer_bind) (rule adffs_log_info.log_writer_axioms)+

subsection \<open>The messages of a run\<close>

fun log_messages :: "(string \<times> vararg list) list \<Rightarrow> log_state \<Rightarrow> log_state option" where
  "log_messages [] ls = Some ls"
| "log_messages ((fmt, args) # ms) ls = do { ls' \<leftarrow> adffs_log_info fmt args ls; log_messages ms ls' }"

lemma log_messages_added:
  assumes "log_ready ls" "flog ls \<noteq> None" "map (\<lambda>(fmt, args). format fmt args) ms = map Some ts"
  shows "log_messages ms ls = Some (log_added (concat (map (\<lambda>t. t @ ''\<newline>'') ts)) ls)"
  using assms
proof (induction ms arbitrary: ls ts)
  case (Cons m ms)
  obtain fmt args where m: "m = (fmt, args)" by (cases m)
  with Cons.prems(3) obtain t ts' where ts: "ts = t # ts'" "format fmt args = Some t"
    "map (\<lambda>(fmt, args). format fmt args) ms = map Some ts'" by auto
  with Cons.prems Cons.IH [of "log_added (t @ ''\<newline>'') ls" ts'] m show ?case
    by (auto simp: adffs_log_info_eq)
qed simp

lemma log_messages_silent: "flog ls = None \<Longrightarrow> log_messages ms ls = Some ls"
  by (induction ms) (auto simp: adffs_log_info_eq)

lemma adffs_log_open_Some:
  assumes "F path = None"
  shows "adffs_log_open F path ls =
    Some (Some (length (streams ls)),
      ls\<lparr>streams := streams ls @ [\<lparr>s_path = path, s_text = [], s_open = True\<rparr>], flog := Some (length (streams ls))\<rparr>)"
  using assms by (simp add: adffs_log_open_def log_open_def)

lemma log_open_message:
  "format ''Error opening log file %s: %s'' [Str (Some p), Str (Some e)] =
    Some (''Error opening log file '' @ p @ '': '' @ e)"
  by (simp add: format_eval)

lemma adffs_log_open_None:
  assumes "F path = Some e"
  shows "adffs_log_open F path ls =
    Some (None, ls\<lparr>flog := None, stderr := stderr ls @ ''Error opening log file '' @ path @ '': '' @ e\<rparr>)"
  using assms by (simp add: adffs_log_open_def log_open_def print_err_def log_open_message)

lemma adffs_log_close_eq:
  "adffs_log_close ls =
     (case flog ls of
        None \<Rightarrow> Some ls
      | Some h \<Rightarrow> if log_ready ls then Some (ls\<lparr>streams := (streams ls)[h := (streams ls ! h)\<lparr>s_open := False\<rparr>]\<rparr>)
                  else None)"
  by (auto simp: adffs_log_close_def log_close_def fclose_def log_ready_def split: option.splits)

text \<open>Closing leaves a pointer to a closed stream.\<close>

lemma closed_not_ready:
  "adffs_log_close ls = Some ls' \<Longrightarrow> flog ls \<noteq> None \<Longrightarrow> flog ls' = flog ls \<and> \<not> log_ready ls'"
  by (auto simp: adffs_log_close_eq log_ready_def split: option.splits if_split_asm)

subsection \<open>Properties\<close>

text \<open>
  C21: A log file opened, written and closed holds exactly the messages logged in between, in
  their order and each on a line of its own; no other stream is touched and the file is closed.
\<close>

theorem log_keeps_messages:
  assumes "F path = None" "map (\<lambda>(fmt, args). format fmt args) ms = map Some ts"
  shows "\<exists>h ls1 ls2 ls3. adffs_log_open F path ls = Some (Some h, ls1) \<and> log_messages ms ls1 = Some ls2 \<and>
    adffs_log_close ls2 = Some ls3 \<and>
    streams ls3 = streams ls @ [\<lparr>s_path = path, s_text = concat (map (\<lambda>t. t @ ''\<newline>'') ts), s_open = False\<rparr>]"
proof -
  let ?h = "length (streams ls)"
  let ?ls1 = "ls\<lparr>streams := streams ls @ [\<lparr>s_path = path, s_text = [], s_open = True\<rparr>], flog := Some ?h\<rparr>"
  have ready: "log_ready ?ls1" "flog ?ls1 = Some ?h" by (simp_all add: log_ready_def)
  with log_messages_added [OF ready(1) _ assms(2)] have
    run: "log_messages ms ?ls1 = Some (log_added (concat (map (\<lambda>t. t @ ''\<newline>'') ts)) ?ls1)" by simp
  with adffs_log_open_Some [of F path ls, OF assms(1)] ready show ?thesis
    by (simp add: adffs_log_close_eq) (simp add: log_added_def)
qed

text \<open>
  Closing the log leaves its pointer behind: with a log file, every message logged after
  the end, and closing once more, are accesses to a closed stream.
\<close>

lemma log_dangling_after_close:
  assumes "adffs_log_close ls = Some ls'" "flog ls \<noteq> None"
  shows "adffs_log_info fmt args ls' = None \<and> adffs_log_close ls' = None"
  using closed_not_ready [OF assms] adffs_log_info.closed assms(2)
  by (auto simp: adffs_log_close_eq split: option.splits)

lemma stat_format_bad: "adffs_log_stat st ls = (if flog ls = None then Some ls else None)"
proof -
  have "adffs_log_info
      (''\<newline>stat {\<newline>    .st_dev     = %lld\<newline>    .st_ino     = %lld\<newline>    .st_mode    = 0%o\<newline>    .st_nlink   = %d'' @ f)
      (Int64 a # Int64 b # Int32 c # Int64 d # as) ls = (if flog ls = None then Some ls else None)" for a b c d as f
    by (simp add: adffs_log_info_eq format_eval)
  from this [of "''\<newline>    .st_uid     = %d\<newline>'' @ _"] show ?thesis
    unfolding adffs_log_stat_def by simp
qed

text \<open>
  Three functions that write to the log are undefined whenever there is one:
  \<open>log_info\<close> and \<open>log_error\<close> print from a \<open>va_list\<close> that was never started, and
  \<open>adffs_log_stat\<close> prints the number of links, a \<open>long\<close>, as an \<open>int\<close>.
\<close>

lemma undefined_log_functions:
  "log_info f fmt args ls = (if f = None then Some ls else None) \<and>
   log_error errtext f context ls = (if f = None then Some ls else None) \<and>
   adffs_log_stat st ls = (if flog ls = None then Some ls else None)"
  by (auto simp: log_info_def log_error_def vlog_info_def vfprintf_def stat_format_bad split: option.splits)

text \<open>
  The other structures are printed without undefined behaviour whenever the log can be
  written. The context of FUSE needs a mount point, which is null if the path could not be
  resolved, for its line.
\<close>

lemma structures_printed:
  assumes "log_ready ls"
  shows "adffs_log_statvfs sv ls \<noteq> None \<and> adffs_log_fuse_conn_info n ls \<noteq> None \<and>
    adffs_log_fuse_file_info fi ls \<noteq> None \<and>
    (adffs_log_fuse_context c ls \<noteq> None \<longleftrightarrow> flog ls = None \<or> cd_mountpoint c \<noteq> None)"
proof -
  have sv: "adffs_log_statvfs sv ls \<noteq> None"
    using assms by (simp add: adffs_log_statvfs_def adffs_log_info_eq format_None directives convert_simps del: not_None_eq)
  have n: "adffs_log_fuse_conn_info n ls \<noteq> None"
    using assms by (simp add: adffs_log_fuse_conn_info_def adffs_log_info_eq format_None directives convert_simps del: not_None_eq)
  have fi: "adffs_log_fuse_file_info fi ls \<noteq> None"
    using assms by (simp add: adffs_log_fuse_file_info_def adffs_log_info_eq format_None directives convert_simps del: not_None_eq)
  have "adffs_log_fuse_context c ls \<noteq> None \<longleftrightarrow> flog ls = None \<or> cd_mountpoint c \<noteq> None"
    using assms by (cases "cd_mountpoint c") (simp_all add: adffs_log_fuse_context_def adffs_log_info_eq format_eval)
  with sv n fi show ?thesis by blast
qed

end
