(* ===== verification/Adffs.thy ===== *)
theory Adffs
  imports Adf_Dir Adf_Open Time_Util Log
begin

section \<open>The FUSE operations: \<open>src/src/adffs.c\<close>\<close>

text \<open>
  The table \<open>adffs_oper\<close> of operations that FUSE calls, on the state \<open>adffs_state_t\<close>. A
  handler gets the state from the FUSE context; a state without an image is a null pointer
  and undefined. Buffers that FUSE passes in are arguments and come back in the reply.
\<close>

subsection \<open>State\<close>

record 'd adffs_state =
  mountpoint :: "string option"
  image :: "'d adfimage option"
  logfile :: "nat option"

text \<open>What the handlers ask the system for: the effective user and group, and the time zone.\<close>

record fuse_env =
  euid :: int
  egid :: int
  tz :: "tm \<Rightarrow> int"

definition adffs_get_state :: "'d adffs_state \<Rightarrow> 'd adfimage option" where
  "adffs_get_state st = image st"

text \<open>Run an operation of the image and store the new image.\<close>

definition on_image ::
  "('d adfimage \<Rightarrow> ('r \<times> 'd adfimage) option) \<Rightarrow> 'd adffs_state \<Rightarrow> ('r \<times> 'd adffs_state) option" where
  "on_image f st = do {
     im \<leftarrow> adffs_get_state st;
     (r, im') \<leftarrow> f im;
     Some (r, st\<lparr>image := Some im'\<rparr>)
   }"

definition adffs_init :: "'d adffs_state \<Rightarrow> 'd adffs_state" where
  "adffs_init private_data = private_data"

text \<open>\<open>adffs_destroy\<close> closes the image, if it is still there, and the log.\<close>

definition adffs_destroy ::
  "'d adffs_state \<Rightarrow> log_state \<Rightarrow> ('d adffs_state \<times> log_state \<times> adf_event list) option" where
  "adffs_destroy st ls =
     (let (im, evs) = (if image st \<noteq> None then adfimage_close (image st) else (image st, []))
      in do {
        ls' \<leftarrow> adffs_log_close ls;
        Some (st\<lparr>image := im, mountpoint := None\<rparr>, ls', evs)
      })"

subsection \<open>Modes and structures\<close>

definition S_IFDIR :: "32 word" where "S_IFDIR = 0x4000"
definition S_IFREG :: "32 word" where "S_IFREG = 0x8000"
definition S_IFLNK :: "32 word" where "S_IFLNK = 0xA000"
definition S_IRUSR :: "32 word" where "S_IRUSR = 0x100"
definition S_IWUSR :: "32 word" where "S_IWUSR = 0x80"
definition S_IXUSR :: "32 word" where "S_IXUSR = 0x40"
definition S_IRGRP :: "32 word" where "S_IRGRP = 0x20"
definition S_IXGRP :: "32 word" where "S_IXGRP = 0x8"
definition S_IROTH :: "32 word" where "S_IROTH = 0x4"
definition S_IXOTH :: "32 word" where "S_IXOTH = 0x1"

lemmas mode_defs =
  S_IFDIR_def S_IFREG_def S_IFLNK_def S_IRUSR_def S_IWUSR_def S_IXUSR_def S_IRGRP_def S_IXGRP_def
  S_IROTH_def S_IXOTH_def

record stat =
  st_mode :: "32 word"
  st_nlink :: int
  st_uid :: int
  st_gid :: int
  st_size :: int
  st_blksize :: int
  st_blocks :: int
  st_atime :: int
  st_mtime :: int
  st_ctime :: int

definition zero_stat :: stat where
  "zero_stat =
     \<lparr>st_mode = 0, st_nlink = 0, st_uid = 0, st_gid = 0, st_size = 0, st_blksize = 0, st_blocks = 0,
      st_atime = 0, st_mtime = 0, st_ctime = 0\<rparr>"

record statvfs =
  f_bsize :: "32 word"
  f_frsize :: "32 word"
  f_blocks :: "32 word"
  f_bfree :: "32 word"
  f_bavail :: "32 word"
  f_files :: int
  f_ffree :: int
  f_favail :: int
  f_rdonly :: bool
  f_nosuid :: bool
  f_namemax :: int

definition adffs_statfs :: "('d, 'f) adflib \<Rightarrow> 'd adffs_state \<Rightarrow> (statvfs \<times> 'd adffs_state) option" where
  "adffs_statfs L st = do {
     im \<leftarrow> adffs_get_state st;
     v \<leftarrow> vol im;
     let blocks_free = adfCountFreeBlocks L v;
     Some (\<lparr>f_bsize = datablockSize v, f_frsize = datablockSize v,
            f_blocks = lastBlock v - firstBlock v - 2, f_bfree = blocks_free, f_bavail = blocks_free,
            f_files = 1, f_ffree = 1, f_favail = 1,
            f_rdonly = vol_readOnly v, f_nosuid = True, f_namemax = 30\<rparr>, st)
   }"

subsection \<open>\<open>adffs_getattr\<close>\<close>

definition when_bit :: "32 word \<Rightarrow> 32 word \<Rightarrow> 32 word \<Rightarrow> 32 word" where
  "when_bit perms flag mode = (if and perms flag \<noteq> 0 then mode else 0)"

definition file_mode :: "32 word \<Rightarrow> 32 word" where
  "file_mode perms =
     or (or (or S_IFREG (when_bit perms ADF_PERM_READ (or (or S_IRUSR S_IRGRP) S_IROTH)))
            (when_bit perms ADF_PERM_WRITE S_IWUSR))
        (when_bit perms ADF_PERM_EXECUTE (or (or S_IXUSR S_IXGRP) S_IXOTH))"

definition dir_mode :: "32 word \<Rightarrow> 32 word" where
  "dir_mode perms =
     or (or (or S_IFDIR (when_bit perms ADF_PERM_READ (or (or S_IRUSR S_IRGRP) S_IROTH)))
            (when_bit perms ADF_PERM_WRITE S_IWUSR))
        (or (or S_IXUSR S_IXGRP) S_IXOTH)"

definition root_mode :: "32 word" where
  "root_mode = or (or (or S_IFDIR (or (or S_IRUSR S_IXUSR) S_IWUSR)) (or S_IRGRP S_IXGRP)) (or S_IROTH S_IXOTH)"

definition softlink_mode :: "32 word" where
  "softlink_mode = or (or (or S_IFLNK (or S_IRUSR S_IXUSR)) (or S_IRGRP S_IXGRP)) (or S_IROTH S_IXOTH)"

text \<open>The end of the function, which every path without an error reaches.\<close>

definition finish_stat :: "fuse_env \<Rightarrow> adfimage_dentry \<Rightarrow> int \<Rightarrow> stat \<Rightarrow> stat" where
  "finish_stat env d blksize sb =
     (let e = adflib_entry d;
          t = localtime_to_time_t (tz env) (e_year e) (e_month e) (e_days e) (e_hour e) (e_mins e) (e_secs e)
      in sb\<lparr>st_uid := euid env, st_gid := egid env, st_atime := t, st_mtime := t, st_ctime := t,
            st_blksize := blksize\<rparr>)"

text \<open>The size and blocks of a file, read from its header; nothing if it does not open.\<close>

definition stat_file ::
  "('d, 'f) adflib \<Rightarrow> string \<Rightarrow> stat \<Rightarrow> 'd adfimage \<Rightarrow> (stat \<times> 'd adfimage) option" where
  "stat_file L name sb im = do {
     v \<leftarrow> vol im;
     let (afile, v1) = adfFileOpen L v name ADF_FILE_MODE_READ;
     let sb' = (case afile of
                  None \<Rightarrow> sb
                | Some f \<Rightarrow>
                    sb\<lparr>st_size := uint (fileHdr_byteSize L f),
                       st_blocks := uint (fileHdr_byteSize L f) div 512 + 1\<rparr>);
     Some (sb', im\<lparr>vol := Some (adfFileClose L v1 afile)\<rparr>)
   }"

text \<open>The case distinction on the type of the entry; no structure for an entry that was not found.\<close>

definition stat_dentry ::
  "('d, 'f) adflib \<Rightarrow> string \<Rightarrow> string \<Rightarrow> adfimage_dentry \<Rightarrow> 'd adfimage \<Rightarrow> (stat option \<times> 'd adfimage) option" where
  "stat_dentry L path direntry_name dentry im =
     (if dtype dentry = ADFVOLUME_DENTRY_FILE \<or> dtype dentry = ADFVOLUME_DENTRY_LINKFILE then do {
        (sb, im') \<leftarrow> stat_file L direntry_name
          (zero_stat\<lparr>st_mode := file_mode (adfimage_getperm L dentry), st_nlink := 1\<rparr>) im;
        Some (Some sb, im')
      }
      else if dtype dentry = ADFVOLUME_DENTRY_DIRECTORY \<or> dtype dentry = ADFVOLUME_DENTRY_LINKDIR then do {
        (n, im') \<leftarrow> adfimage_count_dir_entries L path im;
        Some (Some (zero_stat\<lparr>st_mode := dir_mode (adfimage_getperm L dentry), st_size := n,
                              st_nlink := 1\<rparr>), im')
      }
      else if dtype dentry = ADFVOLUME_DENTRY_SOFTLINK
      then Some (Some (zero_stat\<lparr>st_mode := softlink_mode, st_nlink := 1\<rparr>), im)
      else if dtype dentry = ADFVOLUME_DENTRY_UNKNOWN then Some (Some zero_stat, im)
      else Some (None, im))"

text \<open>The part for an entry below the root; the result is \<open>None\<close> inside when there is no such entry.\<close>

definition getattr_entry ::
  "('d, 'f) adflib \<Rightarrow> string \<Rightarrow> 'd adfimage \<Rightarrow> ((adfimage_dentry \<times> stat) option \<times> 'd adfimage) option" where
  "getattr_entry L path im =
     (let (dirpath_buf, im1) = dup path im in do {
       (ok, im2) \<leftarrow> adfimage_chdir L (dirname_ptr dirpath_buf) im1;
       if \<not> ok then Some (None, im2)
       else
         let (direntry_buf, im3) = dup path im2;
             base = basename_ptr direntry_buf;
             direntry_name = (if base = [] then ''.'' else base)
         in do {
           (dentry, im4) \<leftarrow> adfimage_getdentry L direntry_name im3;
           (sb, im5) \<leftarrow> stat_dentry L path direntry_name dentry im4;
           im6 \<leftarrow> to_root L im5;
           Some (map_option (Pair dentry) sb, im6)
         }
     })"

definition getattr_image ::
  "('d, 'f) adflib \<Rightarrow> fuse_env \<Rightarrow> string \<Rightarrow> 'd adfimage \<Rightarrow> ((int \<times> stat) \<times> 'd adfimage) option" where
  "getattr_image L env path im =
     (if pathstr_get_relative path = [] then do {
        dentry \<leftarrow> adfimage_get_root_dentry L im;
        n \<leftarrow> adfimage_count_cwd_entries L im;
        Some ((0, finish_stat env dentry (fstat_blksize im)
                    (zero_stat\<lparr>st_mode := root_mode, st_size := n, st_nlink := 1\<rparr>)), im)
      }
      else do {
        (r, im') \<leftarrow> getattr_entry L path im;
        Some (case r of
                None \<Rightarrow> (- ENOENT, zero_stat)
              | Some (dentry, sb) \<Rightarrow> (0, finish_stat env dentry (fstat_blksize im) sb), im')
      })"

definition adffs_getattr ::
  "('d, 'f) adflib \<Rightarrow> fuse_env \<Rightarrow> string \<Rightarrow> 'd adffs_state \<Rightarrow> ((int \<times> stat) \<times> 'd adffs_state) option" where
  "adffs_getattr L env path st = on_image (getattr_image L env path) st"

subsection \<open>Directories\<close>

text \<open>
  The callback \<open>filler\<close> takes a name into FUSE's buffer and says whether the buffer is full.
  Its result is ignored for the two entries every directory has.
\<close>

type_synonym 'b filler = "string \<Rightarrow> 'b \<Rightarrow> bool \<times> 'b"

fun fill_entries :: "'b filler \<Rightarrow> AdfEntry list \<Rightarrow> 'b \<Rightarrow> bool \<times> 'b" where
  "fill_entries filler [] buffer = (False, buffer)"
| "fill_entries filler (dentry # dentries) buffer =
     (case filler (e_name dentry) buffer of (full, buffer') \<Rightarrow>
        if full then (True, buffer') else fill_entries filler dentries buffer')"

definition readdir_image ::
  "('d, 'f) adflib \<Rightarrow> string \<Rightarrow> 'b filler \<Rightarrow> 'b \<Rightarrow> 'd adfimage \<Rightarrow> ((int \<times> 'b) \<times> 'd adfimage) option" where
  "readdir_image L path filler buffer im = do {
     (ok, im1) \<leftarrow> adfimage_chdir L path im;
     if \<not> ok then do { im2 \<leftarrow> to_root L im1; Some ((- ENOENT, buffer), im2) }
     else do {
       v \<leftarrow> vol im1;
       let buffer1 = snd (filler ''..'' (snd (filler ''.'' buffer)));
       let (full, buffer2) = fill_entries filler (adfGetDirEnt L v (curDirPtr v)) buffer1;
       im2 \<leftarrow> to_root L im1;
       Some ((if full then - EAGAIN else 0, buffer2), im2)
     }
   }"

definition adffs_readdir ::
  "('d, 'f) adflib \<Rightarrow> string \<Rightarrow> 'b filler \<Rightarrow> 'b \<Rightarrow> 'd adffs_state \<Rightarrow> ((int \<times> 'b) \<times> 'd adffs_state) option" where
  "adffs_readdir L path filler buffer st = on_image (readdir_image L path filler buffer) st"

definition adffs_mkdir :: "('d, 'f) adflib \<Rightarrow> string \<Rightarrow> int \<Rightarrow> 'd adffs_state \<Rightarrow> (int \<times> 'd adffs_state) option" where
  "adffs_mkdir L path mode st = on_image (adfimage_mkdir L path mode) st"

definition adffs_rmdir :: "('d, 'f) adflib \<Rightarrow> string \<Rightarrow> 'd adffs_state \<Rightarrow> (int \<times> 'd adffs_state) option" where
  "adffs_rmdir L path st = on_image (adfimage_rmdir L path) st"

subsection \<open>Files\<close>

definition adffs_read ::
  "('d, 'f) adflib \<Rightarrow> string \<Rightarrow> char list \<Rightarrow> 64 word \<Rightarrow> 64 word \<Rightarrow> 'd adffs_state
    \<Rightarrow> ((int \<times> char list) \<times> 'd adffs_state) option" where
  "adffs_read L path buffer sz offset st =
     on_image (\<lambda>im. map_option (\<lambda>(n, b, im'). ((n, b), im')) (adfimage_read L path buffer sz offset im)) st"

definition adffs_write ::
  "('d, 'f) adflib \<Rightarrow> string \<Rightarrow> char list \<Rightarrow> 64 word \<Rightarrow> 64 word \<Rightarrow> 'd adffs_state
    \<Rightarrow> (int \<times> 'd adffs_state) option" where
  "adffs_write L path buffer sz offset st = on_image (adfimage_write L path buffer sz offset) st"

definition adffs_readlink ::
  "('d, 'f) adflib \<Rightarrow> string \<Rightarrow> char list \<Rightarrow> nat \<Rightarrow> 'd adffs_state
    \<Rightarrow> ((int \<times> char list) \<times> 'd adffs_state) option" where
  "adffs_readlink L path buf len st =
     on_image (\<lambda>im. map_option (\<lambda>(n, b, im'). ((n, b), im')) (adfimage_readlink L path buf len im)) st"

definition adffs_create :: "('d, 'f) adflib \<Rightarrow> string \<Rightarrow> int \<Rightarrow> 'd adffs_state \<Rightarrow> (int \<times> 'd adffs_state) option" where
  "adffs_create L filepath mode st = on_image (adfimage_create L filepath mode) st"

definition adffs_unlink :: "('d, 'f) adflib \<Rightarrow> string \<Rightarrow> 'd adffs_state \<Rightarrow> (int \<times> 'd adffs_state) option" where
  "adffs_unlink L filepath st = on_image (adfimage_unlink L filepath) st"

definition open_image :: "('d, 'f) adflib \<Rightarrow> string \<Rightarrow> 'd adfimage \<Rightarrow> (int \<times> 'd adfimage) option" where
  "open_image L filepath im = do {
     (file, im1) \<leftarrow> adfimage_file_open L filepath ADF_FILE_MODE_READ im;
     im2 \<leftarrow> adfimage_file_close L file im1;
     Some (if file \<noteq> None then 0 else - 1, im2)
   }"

definition adffs_open :: "('d, 'f) adflib \<Rightarrow> string \<Rightarrow> 'd adffs_state \<Rightarrow> (int \<times> 'd adffs_state) option" where
  "adffs_open L filepath st = on_image (open_image L filepath) st"

definition adffs_truncate :: "('d, 'f) adflib \<Rightarrow> string \<Rightarrow> 64 word \<Rightarrow> 'd adffs_state \<Rightarrow> (int \<times> 'd adffs_state) option" where
  "adffs_truncate L path new_size st = do {
     (status, st') \<leftarrow> on_image (adfimage_file_truncate L path new_size) st;
     Some (if status = 0 then 0 else - 1, st')
   }"

definition adffs_rename ::
  "('d, 'f) adflib \<Rightarrow> string \<Rightarrow> string \<Rightarrow> 'd adffs_state \<Rightarrow> (int \<times> 'd adffs_state) cres option" where
  "adffs_rename L src_path dst_path st =
     (case adffs_get_state st of
        None \<Rightarrow> Some UB
      | Some im \<Rightarrow>
          (case adfimage_file_rename L src_path dst_path im of
             None \<Rightarrow> None
           | Some UB \<Rightarrow> Some UB
           | Some (Ret (status, im')) \<Rightarrow> Some (Ret (status, st\<lparr>image := Some im'\<rparr>))))"

subsection \<open>Attributes\<close>

text \<open>The user's three permission bits of the mode.\<close>

definition chmod_perms :: "32 word \<Rightarrow> 32 word" where
  "chmod_perms mode =
     or (or (if and mode S_IRUSR \<noteq> 0 then ADF_PERM_READ else 0)
            (if and mode S_IWUSR \<noteq> 0 then ADF_PERM_WRITE else 0))
        (if and mode S_IXUSR \<noteq> 0 then ADF_PERM_EXECUTE else 0)"

text \<open>An error is the positive \<open>EINVAL\<close>.\<close>

definition adffs_chmod :: "('d, 'f) adflib \<Rightarrow> string \<Rightarrow> 32 word \<Rightarrow> 'd adffs_state \<Rightarrow> (int \<times> 'd adffs_state) option" where
  "adffs_chmod L path mode st = do {
     (ok, st') \<leftarrow> on_image (adfimage_setperm L path (chmod_perms mode)) st;
     Some (if ok then 0 else EINVAL, st')
   }"

definition adffs_chown :: "string \<Rightarrow> int \<Rightarrow> int \<Rightarrow> 'd adffs_state \<Rightarrow> (int \<times> 'd adffs_state) option" where
  "adffs_chown path uid gid st = Some (0, st)"

definition adffs_utimens :: "string \<Rightarrow> int \<times> int \<Rightarrow> 'd adffs_state \<Rightarrow> (int \<times> 'd adffs_state) option" where
  "adffs_utimens path tv st = Some (0, st)"

subsection \<open>The table of operations\<close>

text \<open>
  A request is a call of one of the handlers of \<open>adffs_oper\<close>; \<open>readdir\<close> collects names in a
  list and is full at the given number of them.
\<close>

datatype request =
    Getattr string
  | Readlink string "char list" nat
  | Mkdir string int
  | Unlink string
  | Rmdir string
  | Rename string string
  | Chmod string "32 word"
  | Chown string int int
  | Truncate string "64 word"
  | Open string
  | Read string "char list" "64 word" "64 word"
  | Write string "char list" "64 word" "64 word"
  | Statfs string
  | Readdir string nat
  | Create string int
  | Utimens string "int \<times> int"

datatype reply =
    Status int
  | StatReply int stat
  | StatvfsReply statvfs
  | BufferReply int "char list"
  | NamesReply int "string list"

definition list_filler :: "nat \<Rightarrow> string list filler" where
  "list_filler n name listed =
     (if length listed < n then (False, listed @ [name]) else (True, listed))"

text \<open>The outcome of a handler that always returns, as a reply.\<close>

definition reply_with ::
  "('r \<Rightarrow> reply) \<Rightarrow> ('r \<times> 'd adffs_state) option \<Rightarrow> (reply \<times> 'd adffs_state) cres option" where
  "reply_with f r = returns (map_option (\<lambda>(x, st). (f x, st)) r)"

fun adffs_oper ::
  "('d, 'f) adflib \<Rightarrow> fuse_env \<Rightarrow> request \<Rightarrow> 'd adffs_state \<Rightarrow> (reply \<times> 'd adffs_state) cres option" where
  "adffs_oper L env (Getattr p) st = reply_with (\<lambda>(n, sb). StatReply n sb) (adffs_getattr L env p st)"
| "adffs_oper L env (Readlink p b n) st = reply_with (\<lambda>(n, b). BufferReply n b) (adffs_readlink L p b n st)"
| "adffs_oper L env (Mkdir p m) st = reply_with Status (adffs_mkdir L p m st)"
| "adffs_oper L env (Unlink p) st = reply_with Status (adffs_unlink L p st)"
| "adffs_oper L env (Rmdir p) st = reply_with Status (adffs_rmdir L p st)"
| "adffs_oper L env (Rename p q) st =
     (case adffs_rename L p q st of
        None \<Rightarrow> None
      | Some UB \<Rightarrow> Some UB
      | Some (Ret (n, st')) \<Rightarrow> Some (Ret (Status n, st')))"
| "adffs_oper L env (Chmod p m) st = reply_with Status (adffs_chmod L p m st)"
| "adffs_oper L env (Chown p u g) st = reply_with Status (adffs_chown p u g st)"
| "adffs_oper L env (Truncate p n) st = reply_with Status (adffs_truncate L p n st)"
| "adffs_oper L env (Open p) st = reply_with Status (adffs_open L p st)"
| "adffs_oper L env (Read p b n off) st = reply_with (\<lambda>(n, b). BufferReply n b) (adffs_read L p b n off st)"
| "adffs_oper L env (Write p b n off) st = reply_with Status (adffs_write L p b n off st)"
| "adffs_oper L env (Statfs p) st = reply_with StatvfsReply (adffs_statfs L st)"
| "adffs_oper L env (Readdir p n) st =
     reply_with (\<lambda>(r, listed). NamesReply r listed) (adffs_readdir L p (list_filler n) [] st)"
| "adffs_oper L env (Create p m) st = reply_with Status (adffs_create L p m st)"
| "adffs_oper L env (Utimens p tv) st = reply_with Status (adffs_utimens p tv st)"

end
