(* ===== verification/Adffs_Spec.thy ===== *)
theory Adffs_Spec
  imports Adffs
begin

section \<open>A specification of the FUSE operations, and the refinement\<close>

text \<open>
  The specification knows a volume and canonical paths only: no working directory, no strings
  to take apart, no way back. Each operation walks from the root to the directory, acts there
  and gives a reply and a volume. The refinement says that the handlers of \<open>adffs.c\<close> answer
  exactly that, whatever \<open>cwd\<close> and the current directory were left at by the requests before,
  as long as the paths fit the buffer of \<open>cwd\<close>.
\<close>

subsection \<open>Specification\<close>

definition walk_to ::
  "('d, 'f) adflib \<Rightarrow> 'd AdfVolume \<Rightarrow> string list \<Rightarrow> bool \<times> 'd AdfVolume \<times> string list" where
  "walk_to L v cs = adf_walk L (adfToRootDir L v) cs"

definition spec_getattr ::
  "('d, 'f) adflib \<Rightarrow> fuse_env \<Rightarrow> int \<Rightarrow> 'd AdfVolume \<Rightarrow> string list \<Rightarrow> string
    \<Rightarrow> (int \<times> stat) \<times> 'd AdfVolume" where
  "spec_getattr L env blksize v cs c =
     (case walk_to L v cs of (found, w, _) \<Rightarrow>
        if \<not> found then ((- ENOENT, zero_stat), w)
        else
          let d = lookup_entry L (adfGetDirEnt L w (curDirPtr w)) c;
              ok = (\<lambda>sb. (0, finish_stat env d blksize sb));
              perm = adfimage_getperm L d
          in if dtype d = ADFVOLUME_DENTRY_FILE \<or> dtype d = ADFVOLUME_DENTRY_LINKFILE then
               (case adfFileOpen L w c ADF_FILE_MODE_READ of (file, w1) \<Rightarrow>
                  let sb = zero_stat\<lparr>st_mode := file_mode perm, st_nlink := 1\<rparr>
                  in (ok (case file of None \<Rightarrow> sb
                          | Some f \<Rightarrow> sb\<lparr>st_size := uint (fileHdr_byteSize L f),
                                        st_blocks := uint (fileHdr_byteSize L f) div 512 + 1\<rparr>),
                      adfFileClose L w1 file))
             else if dtype d = ADFVOLUME_DENTRY_DIRECTORY \<or> dtype d = ADFVOLUME_DENTRY_LINKDIR then
               (case walk_to L v (cs @ [c]) of (_, w', _) \<Rightarrow>
                  (ok (zero_stat\<lparr>st_mode := dir_mode perm,
                                st_size := int (length (adfGetDirEnt L w' (curDirPtr w'))), st_nlink := 1\<rparr>), w))
             else if dtype d = ADFVOLUME_DENTRY_SOFTLINK
             then (ok (zero_stat\<lparr>st_mode := softlink_mode, st_nlink := 1\<rparr>), w)
             else if dtype d = ADFVOLUME_DENTRY_UNKNOWN then (ok zero_stat, w)
             else ((- ENOENT, zero_stat), w))"

definition spec_readdir ::
  "('d, 'f) adflib \<Rightarrow> 'b filler \<Rightarrow> 'b \<Rightarrow> 'd AdfVolume \<Rightarrow> string list \<Rightarrow> (int \<times> 'b) \<times> 'd AdfVolume" where
  "spec_readdir L filler buf v cs =
     (case walk_to L v cs of (found, w, _) \<Rightarrow>
        if \<not> found then ((- ENOENT, buf), w)
        else case fill_entries filler (adfGetDirEnt L w (curDirPtr w))
                    (snd (filler ''..'' (snd (filler ''.'' buf)))) of
          (full, buf') \<Rightarrow> ((if full then - EAGAIN else 0, buf'), w))"

text \<open>Creating and removing: the act, and how its return code is passed on.\<close>

definition spec_change ::
  "('d, 'f) adflib \<Rightarrow> ('d AdfVolume \<Rightarrow> int \<Rightarrow> string \<Rightarrow> int \<times> 'd AdfVolume) \<Rightarrow> (int \<Rightarrow> int)
    \<Rightarrow> 'd AdfVolume \<Rightarrow> string list \<Rightarrow> string \<Rightarrow> int \<times> 'd AdfVolume" where
  "spec_change L act pass v cs c =
     (case walk_to L v cs of (found, w, _) \<Rightarrow>
        if \<not> found then (- ENOENT, w)
        else case act w (curDirPtr w) c of (rc, w') \<Rightarrow> (pass rc, w'))"

text \<open>Reading and writing may overrun the buffer: \<open>None\<close>.\<close>

definition spec_read ::
  "('d, 'f) adflib \<Rightarrow> char list \<Rightarrow> 64 word \<Rightarrow> 64 word \<Rightarrow> 'd AdfVolume \<Rightarrow> string list \<Rightarrow> string
    \<Rightarrow> ((int \<times> char list) \<times> 'd AdfVolume) option" where
  "spec_read L buf sz offset v cs c =
     (case walk_to L v cs of (found, w, _) \<Rightarrow>
        if \<not> found then Some ((- ENOENT, buf), w)
        else case adfFileOpen L w c ADF_FILE_MODE_READ of
          (None, w1) \<Rightarrow> Some ((- ENOENT, buf), w1)
        | (Some f, w1) \<Rightarrow> map_option (\<lambda>(n, buf', f2, w2). ((n, buf'), adfFileClose L w2 (Some f2)))
            (seek_and_read L w1 f sz offset buf))"

definition spec_write ::
  "('d, 'f) adflib \<Rightarrow> char list \<Rightarrow> 64 word \<Rightarrow> 64 word \<Rightarrow> 'd AdfVolume \<Rightarrow> string list \<Rightarrow> string
    \<Rightarrow> (int \<times> 'd AdfVolume) option" where
  "spec_write L buf sz offset v cs c =
     (case walk_to L v cs of (found, w, _) \<Rightarrow>
        if \<not> found then Some (- ENOENT, w)
        else case adfFileOpen L w c ADF_FILE_MODE_WRITE of
          (None, w1) \<Rightarrow> Some (- ENOENT, w1)
        | (Some f, w1) \<Rightarrow> map_option (\<lambda>(n, f2, w2). (n, adfFileClose L w2 (Some f2)))
            (seek_and_write L w1 f sz offset buf))"

definition spec_open ::
  "('d, 'f) adflib \<Rightarrow> 'd AdfVolume \<Rightarrow> string list \<Rightarrow> string \<Rightarrow> int \<times> 'd AdfVolume" where
  "spec_open L v cs c =
     (case walk_to L v cs of (found, w, _) \<Rightarrow>
        if \<not> found then (- 1, adfFileClose L w None)
        else case adfFileOpen L w c ADF_FILE_MODE_READ of (fl, w1) \<Rightarrow>
          (if fl = None then - 1 else 0, adfFileClose L w1 fl))"

definition spec_readlink ::
  "('d, 'f) adflib \<Rightarrow> char list \<Rightarrow> nat \<Rightarrow> 'd AdfVolume \<Rightarrow> string list \<Rightarrow> string
    \<Rightarrow> ((int \<times> char list) \<times> 'd AdfVolume) option" where
  "spec_readlink L buf len_max v cs c =
     (case walk_to L v cs of (found, w, _) \<Rightarrow>
        if \<not> found then Some ((- 1, buf), w)
        else map_option (\<lambda>r. (r, w)) (link_text L w c buf len_max))"

text \<open>Closing a file does not depend on the current directory: needed where the code goes back first.\<close>

definition close_ok :: "('d, 'f) adflib \<Rightarrow> bool" where
  "close_ok L \<longleftrightarrow>
     (\<forall>v s f. adfFileClose L (v\<lparr>curDirPtr := s\<rparr>) f = (adfFileClose L v f)\<lparr>curDirPtr := s\<rparr>)"

subsection \<open>The abstraction\<close>

text \<open>
  An image represents a volume up to the volume's current directory; its \<open>cwd\<close> is some
  canonical path of at most \<open>k\<close> characters.
\<close>

definition represents :: "('d, 'f) adflib \<Rightarrow> nat \<Rightarrow> 'd adfimage \<Rightarrow> 'd AdfVolume \<Rightarrow> bool" where
  "represents L k im v \<longleftrightarrow>
     (\<exists>u ds. vol im = Some u \<and> adfToRootDir L u = adfToRootDir L v \<and> heap im = [] \<and>
        names ds \<and> cwd im = abspath ds \<and> length (cwd im) \<le> k)"

lemma representsI:
  "vol im = Some u \<Longrightarrow> adfToRootDir L u = adfToRootDir L v \<Longrightarrow> heap im = [] \<Longrightarrow>
   names ds \<Longrightarrow> cwd im = abspath ds \<Longrightarrow> length (cwd im) \<le> k \<Longrightarrow> represents L k im v"
  by (auto simp: represents_def)

lemma representsE:
  assumes "represents L k im v"
  obtains u ds where "vol im = Some u" "adfToRootDir L u = adfToRootDir L v" "heap im = []"
    "names ds" "cwd im = abspath ds" "length (cwd im) \<le> k"
  using assms by (auto simp: represents_def)

lemma represents_mono: "represents L k im v \<Longrightarrow> k \<le> k' \<Longrightarrow> represents L k' im v"
  by (fastforce simp: represents_def)

lemma represents_root: "represents L k im (adfToRootDir L v) = represents L k im v" if "nav_ok L"
  using that by (simp add: represents_def)

lemma same_volume_represents:
  "nav_ok L \<Longrightarrow> represents L k im v \<Longrightarrow> same_volume v w \<Longrightarrow> represents L k im w"
  using same_volume_root by (fastforce simp: represents_def)

lemma in_sync_represents:
  "in_sync L im \<Longrightarrow> vol im = Some v \<Longrightarrow> heap im = [] \<Longrightarrow> represents L (ADFIMAGE_MAX_PATH - 1) im v"
  by (auto simp: represents_def in_sync_def)

lemma root_of_walk:
  assumes "nav_ok L" "walk_to L v cs = (b, w, e)"
  shows "adfToRootDir L w = adfToRootDir L v"
proof -
  have "same_volume v w"
    using adf_walk_same [OF assms(1) assms(2) [unfolded walk_to_def]] adfToRootDir_same [OF assms(1), of v]
    by (rule same_volume_trans [rotated])
  from same_volume_root [OF assms(1) this] show ?thesis by simp
qed

lemma walk_to_cong: "adfToRootDir L u = adfToRootDir L v \<Longrightarrow> walk_to L u cs = walk_to L v cs"
  by (simp add: walk_to_def)

subsection \<open>Going back\<close>

text \<open>
  The way back to an arbitrary canonical \<open>cwd\<close>, whether that directory still exists or not,
  always returns and changes the two working directories only.
\<close>

lemma go_back_canonical:
  assumes "nav_ok L" "names ds" "length (abspath ds) < ADFIMAGE_MAX_PATH" "vol im = Some w" "heap im = []"
  shows "\<exists>w' e. go_back L (Some (abspath ds)) im = Some (im\<lparr>vol := Some w', cwd := abspath e\<rparr>) \<and>
    same_volume w w' \<and> adfToRootDir L w' = adfToRootDir L w \<and> names e \<and>
    length (abspath e) \<le> length (abspath ds)"
proof -
  obtain b w' e where walk: "adf_walk L (adfToRootDir L w) ds = (b, w', e)"
    by (cases "adf_walk L (adfToRootDir L w) ds")
  note len = length_abspath_entered [OF walk]
  have "same_volume w w'"
    using adf_walk_same [OF assms(1) walk] adfToRootDir_same [OF assms(1), of w]
    by (rule same_volume_trans [rotated])
  moreover from this have "adfToRootDir L w' = adfToRootDir L w"
    using same_volume_root [OF assms(1)] by fastforce
  moreover have "go_back L (Some (abspath ds)) im = Some (im\<lparr>vol := Some w', cwd := abspath e\<rparr>)"
    using adfimage_chdir_absolute [OF assms(2,4,5), of L] walk len assms(3) by (simp add: go_back_def)
  ultimately show ?thesis using len names_entered [OF walk assms(2)] by blast
qed

text \<open>A function that enters a directory and comes back represents what it did there.\<close>

lemma there_and_back:
  assumes "nav_ok L" "represents L k im v" "k < ADFIMAGE_MAX_PATH"
    and "vol im' = Some w" "heap im' = []"
  shows "\<exists>im''. go_back L (Some (cwd im)) im' = Some im'' \<and> represents L k im'' w \<and>
    vol im'' \<noteq> None \<and> (\<exists>w'. vol im'' = Some w' \<and> same_volume w w')"
proof -
  from assms(2) obtain u ds where im: "vol im = Some u" "names ds" "cwd im = abspath ds" "length (cwd im) \<le> k"
    by (rule representsE)
  from im(3,4) assms(3) have fits: "length (abspath ds) < ADFIMAGE_MAX_PATH" by simp
  from go_back_canonical [OF assms(1) im(2) fits assms(4,5)] obtain w' e where
    "go_back L (Some (abspath ds)) im' = Some (im'\<lparr>vol := Some w', cwd := abspath e\<rparr>)"
    "same_volume w w'" "adfToRootDir L w' = adfToRootDir L w" "names e" "length (abspath e) \<le> length (abspath ds)"
    by blast
  then show ?thesis using im(3,4) assms(5)
    by (auto intro!: representsI [of _ w' L w e])
qed

lemma enter_dir_represents:
  assumes "nav_ok L" "represents L k im v" "names cs" "dirpath p = abspath cs"
    and "walk_to L v cs = (b, w, e)" "length (abspath cs) < ADFIMAGE_MAX_PATH"
  shows "enter_dir L p im = Some (b, Some (cwd im), im\<lparr>vol := Some w, cwd := abspath e\<rparr>)"
proof -
  from assms(2) obtain u where u: "vol im = Some u" "adfToRootDir L u = adfToRootDir L v" "heap im = []"
    by (rule representsE)
  from assms(5) u(2) have walk: "adf_walk L (adfToRootDir L u) cs = (b, w, e)" by (simp add: walk_to_def)
  with length_abspath_entered [OF walk] assms(6) show ?thesis
    by (intro enter_dir_absolute [OF assms(3) u(3,1) assms(4)]) simp_all
qed

text \<open>
  What a file operation can rely on once it has entered the directory: any volume \<open>x\<close> it
  leaves there is represented, in the directory and after going back.
\<close>

lemma in_directory:
  assumes "nav_ok L" "represents L k im v" "k < ADFIMAGE_MAX_PATH"
    and "names cs" "is_name c" "length (abspath cs) \<le> k" "walk_to L v cs = (b, w, e)"
  shows "enter_dir L \<lparr>dirpath = abspath cs, entryname = c\<rparr> im =
      Some (b, Some (cwd im), im\<lparr>vol := Some w, cwd := abspath e\<rparr>)"
    and "heap im = []"
    and "represents L k (im\<lparr>vol := Some w, cwd := abspath e\<rparr>) w"
    and "represents L k (im\<lparr>cwd := abspath e, vol := Some x\<rparr>) x"
    and "\<exists>im''. go_back L (Some (cwd im)) (im\<lparr>cwd := abspath e, vol := Some x\<rparr>) = Some im'' \<and>
      represents L k im'' x"
    and "\<exists>im''. go_back L (Some (cwd im)) (im\<lparr>vol := Some w, cwd := abspath e\<rparr>) = Some im'' \<and>
      represents L k im'' w"
proof -
  have fits: "length (abspath cs) < ADFIMAGE_MAX_PATH" using assms(3,6) by simp
  show "enter_dir L \<lparr>dirpath = abspath cs, entryname = c\<rparr> im =
      Some (b, Some (cwd im), im\<lparr>vol := Some w, cwd := abspath e\<rparr>)"
    by (rule enter_dir_represents [OF assms(1,2,4) _ assms(7) fits]) simp
  show heap: "heap im = []" using assms(2) by (auto simp: represents_def)
  have e: "names e" "length (abspath e) \<le> k"
    using assms(4,6) names_entered [OF assms(7) [unfolded walk_to_def]]
      length_abspath_entered [OF assms(7) [unfolded walk_to_def]] by auto
  with heap show "represents L k (im\<lparr>vol := Some w, cwd := abspath e\<rparr>) w"
    and "represents L k (im\<lparr>cwd := abspath e, vol := Some x\<rparr>) x"
    by (auto intro: representsI)
  have "heap (im\<lparr>cwd := abspath e, vol := Some x\<rparr>) = []" using heap by simp
  from there_and_back [OF assms(1-3) _ this, of x]
  show "\<exists>im''. go_back L (Some (cwd im)) (im\<lparr>cwd := abspath e, vol := Some x\<rparr>) = Some im'' \<and>
      represents L k im'' x" by auto
  have "heap (im\<lparr>vol := Some w, cwd := abspath e\<rparr>) = []" using heap by simp
  from there_and_back [OF assms(1-3) _ this, of w]
  show "\<exists>im''. go_back L (Some (cwd im)) (im\<lparr>vol := Some w, cwd := abspath e\<rparr>) = Some im'' \<and>
      represents L k im'' w" by auto
qed

subsection \<open>Each operation refines its specification\<close>

lemma read_refines:
  assumes "nav_ok L" "represents L k im v" "k < ADFIMAGE_MAX_PATH"
    and "names cs" "is_name c" "length (abspath cs) \<le> k"
  shows "case spec_read L buf sz offset v cs c of
      None \<Rightarrow> adfimage_read L (abspath (cs @ [c])) buf sz offset im = None
    | Some ((n, buf'), v') \<Rightarrow> \<exists>im'. adfimage_read L (abspath (cs @ [c])) buf sz offset im = Some (n, buf', im') \<and>
        represents L k im' v'"
proof -
  obtain b w e where walk: "walk_to L v cs = (b, w, e)" by (cases "walk_to L v cs")
  note here = in_directory [OF assms walk]
  note run = spec_read_def walk adfimage_read_def new_path_ok [OF here(2)]
    dirname_abspath [OF assms(4,5)] basename_abspath [OF assms(5)] here(1)
  obtain fl w1 where op: "adfFileOpen L w c ADF_FILE_MODE_READ = (fl, w1)"
    by (cases "adfFileOpen L w c ADF_FILE_MODE_READ")
  show ?thesis
  proof (cases "b \<and> fl \<noteq> None")
    case False
    then show ?thesis using here(3,4) op by (cases b) (simp_all add: run)
  next
    case True
    then obtain f where f: "fl = Some f" by blast
    show ?thesis
    proof (cases "seek_and_read L w1 f sz offset buf")
      case None
      with True f op show ?thesis by (simp add: run)
    next
      case (Some r)
      obtain n buf' f2 w2 where r: "r = (n, buf', f2, w2)" by (cases r)
      from here(5) [of "adfFileClose L w2 (Some f2)"] True f op Some r show ?thesis by (auto simp: run)
    qed
  qed
qed

lemma write_refines:
  assumes "nav_ok L" "represents L k im v" "k < ADFIMAGE_MAX_PATH"
    and "names cs" "is_name c" "length (abspath cs) \<le> k"
  shows "case spec_write L buf sz offset v cs c of
      None \<Rightarrow> adfimage_write L (abspath (cs @ [c])) buf sz offset im = None
    | Some (n, v') \<Rightarrow> \<exists>im'. adfimage_write L (abspath (cs @ [c])) buf sz offset im = Some (n, im') \<and>
        represents L k im' v'"
proof -
  obtain b w e where walk: "walk_to L v cs = (b, w, e)" by (cases "walk_to L v cs")
  note here = in_directory [OF assms walk]
  note run = spec_write_def walk adfimage_write_def new_path_ok [OF here(2)]
    dirname_abspath [OF assms(4,5)] basename_abspath [OF assms(5)] here(1)
  obtain fl w1 where op: "adfFileOpen L w c ADF_FILE_MODE_WRITE = (fl, w1)"
    by (cases "adfFileOpen L w c ADF_FILE_MODE_WRITE")
  show ?thesis
  proof (cases "b \<and> fl \<noteq> None")
    case False
    then show ?thesis using here(3,4) op by (cases b) (simp_all add: run)
  next
    case True
    then obtain f where f: "fl = Some f" by blast
    show ?thesis
    proof (cases "seek_and_write L w1 f sz offset buf")
      case None
      with True f op show ?thesis by (simp add: run)
    next
      case (Some r)
      obtain n f2 w2 where r: "r = (n, f2, w2)" by (cases r)
      from here(5) [of "adfFileClose L w2 (Some f2)"] True f op Some r show ?thesis by (auto simp: run)
    qed
  qed
qed

lemma close_same_root:
  assumes "nav_ok L" "close_ok L" "same_volume v w"
  shows "adfToRootDir L (adfFileClose L w f) = adfToRootDir L (adfFileClose L v f)"
proof -
  have "w = v\<lparr>curDirPtr := curDirPtr w\<rparr>"
    using same_volume_cur [OF same_volume_sym [OF assms(3)]] by simp
  then have "adfFileClose L w f = (adfFileClose L v f)\<lparr>curDirPtr := curDirPtr w\<rparr>"
    using assms(2) unfolding close_ok_def by metis
  then show ?thesis using assms(1) by (simp add: nav_ok_def)
qed

lemma represents_close:
  assumes "nav_ok L" "close_ok L" "represents L k im x" "vol im = Some w" "same_volume x w"
  shows "represents L k (im\<lparr>vol := Some (adfFileClose L w f)\<rparr>) (adfFileClose L x f)"
  using assms(3,4) close_same_root [OF assms(1,2,5), of f] by (auto simp: represents_def)

lemma open_refines:
  assumes "nav_ok L" "represents L k im v" "k < ADFIMAGE_MAX_PATH"
    and "names cs" "is_name c" "length (abspath cs) \<le> k" "close_ok L"
  shows "\<exists>im'. open_image L (abspath (cs @ [c])) im = Some (fst (spec_open L v cs c), im') \<and>
    represents L k im' (snd (spec_open L v cs c))"
proof -
  obtain b w e where walk: "walk_to L v cs = (b, w, e)" by (cases "walk_to L v cs")
  note here = in_directory [OF assms(1-6) walk]
  note run = spec_open_def walk open_image_def adfimage_file_open_def adfimage_file_close_def
    new_path_ok [OF here(2)] dirname_abspath [OF assms(4,5)] basename_abspath [OF assms(5)] here(1)
  obtain fl w1 where op: "adfFileOpen L w c ADF_FILE_MODE_READ = (fl, w1)"
    by (cases "adfFileOpen L w c ADF_FILE_MODE_READ")
  show ?thesis
  proof (cases "b \<and> fl \<noteq> None")
    case False
    then show ?thesis
      using represents_close [OF assms(1,7) here(3)] represents_close [OF assms(1,7) here(4)] op
      by (cases b) (simp_all add: run)
  next
    case True
    then obtain f where f: "fl = Some f" by blast
    have "heap (im\<lparr>cwd := abspath e, vol := Some w1\<rparr>) = []" using here(2) by simp
    from there_and_back [OF assms(1-3) _ this, of w1] obtain im'' w' where
      "go_back L (Some (cwd im)) (im\<lparr>cwd := abspath e, vol := Some w1\<rparr>) = Some im''"
      "represents L k im'' w1" "vol im'' = Some w'" "same_volume w1 w'" by auto
    with represents_close [OF assms(1,7), of k im'' w1 w'] True f op show ?thesis by (simp add: run)
  qed
qed

lemma readlink_refines:
  assumes "nav_ok L" "represents L k im v" "k < ADFIMAGE_MAX_PATH"
    and "names cs" "is_name c" "length (abspath cs) \<le> k"
  shows "case spec_readlink L buf n v cs c of
      None \<Rightarrow> adfimage_readlink L (abspath (cs @ [c])) buf n im = None
    | Some ((r, buf'), v') \<Rightarrow> \<exists>im'. adfimage_readlink L (abspath (cs @ [c])) buf n im = Some (r, buf', im') \<and>
        represents L k im' v'"
proof -
  obtain b w e where walk: "walk_to L v cs = (b, w, e)" by (cases "walk_to L v cs")
  note here = in_directory [OF assms walk]
  note run = spec_readlink_def walk adfimage_readlink_def
    new_path_ok [OF here(2)] dirname_abspath [OF assms(4,5)] basename_abspath [OF assms(5)] here(1)
  show ?thesis
  proof (cases b)
    case False
    then show ?thesis using here(3) by (simp add: run)
  next
    case True
    show ?thesis
    proof (cases "link_text L w c buf n")
      case None
      with True show ?thesis by (simp add: run)
    next
      case (Some r)
      obtain st buf' where "r = (st, buf')" by (cases r)
      with here(6) True Some show ?thesis by (auto simp: run)
    qed
  qed
qed

text \<open>
  An operation of the image that changes to an absolute directory: whatever \<open>cwd\<close> was, it is
  that directory, or the last one on the way to it, afterwards.
\<close>

lemma chdir_represents:
  assumes "nav_ok L" "represents L k im v" "m < ADFIMAGE_MAX_PATH"
    and "names cs" "length (abspath cs) \<le> m" "walk_to L v cs = (b, w, e)"
  shows "adfimage_chdir L (abspath cs) im = Some (b, im\<lparr>vol := Some w, cwd := abspath e\<rparr>)"
    and "in_sync L (im\<lparr>vol := Some w, cwd := abspath e\<rparr>)"
    and "represents L m (im\<lparr>vol := Some (adfToRootDir L w), cwd := abspath e\<rparr>) w"
    and "represents L m (im\<lparr>vol := Some w, cwd := abspath e\<rparr>) w"
proof -
  from assms(2) obtain u where u: "vol im = Some u" "adfToRootDir L u = adfToRootDir L v" "heap im = []"
    by (rule representsE)
  from assms(6) u(2) have walk: "adf_walk L (adfToRootDir L u) cs = (b, w, e)" by (simp add: walk_to_def)
  have len: "length (abspath e) \<le> m" using length_abspath_entered [OF walk] assms(5) by simp
  show cd: "adfimage_chdir L (abspath cs) im = Some (b, im\<lparr>vol := Some w, cwd := abspath e\<rparr>)"
    using adfimage_chdir_absolute [OF assms(4) u(1,3), of L] walk len assms(3) by simp
  show "in_sync L (im\<lparr>vol := Some w, cwd := abspath e\<rparr>)"
    by (rule chdir_absolute_in_sync [OF assms(1,4) u(1,3) cd])
  have "names e" using names_entered [OF walk assms(4)] .
  with len u(3) assms(1)
  show "represents L m (im\<lparr>vol := Some (adfToRootDir L w), cwd := abspath e\<rparr>) w"
    and "represents L m (im\<lparr>vol := Some w, cwd := abspath e\<rparr>) w"
    by (auto intro: representsI)
qed

lemma readdir_refines:
  assumes "nav_ok L" "represents L k im v" "m < ADFIMAGE_MAX_PATH"
    and "names cs" "length (abspath cs) \<le> m"
  shows "\<exists>im'. readdir_image L (abspath cs) filler buf im = Some (fst (spec_readdir L filler buf v cs), im') \<and>
    represents L m im' (snd (spec_readdir L filler buf v cs))"
proof -
  obtain b w e where walk: "walk_to L v cs = (b, w, e)" by (cases "walk_to L v cs")
  note cd = chdir_represents [OF assms walk]
  have "represents L m (im\<lparr>cwd := abspath e, vol := Some (adfToRootDir L w)\<rparr>) w"
    using cd(3) by (simp add: represents_def)
  with cd(1) show ?thesis
    by (auto simp: spec_readdir_def walk readdir_image_def to_root_def Let_def split: prod.split)
qed

text \<open>
  Creating and removing: here \<open>cwd\<close> grows, so the bound on it grows by the parent's path.
\<close>

lemma change_refines:
  assumes "nav_ok L" "represents L k im v" "names cs" "is_name c"
    and "k + length (abspath cs) < ADFIMAGE_MAX_PATH"
  shows "\<exists>r im'. change_entry L act (relpath (cs @ [c])) im = Some (r, im') \<and>
    fst (spec_change L act pass v cs c) = (case r of None \<Rightarrow> - ENOENT | Some rc \<Rightarrow> pass rc) \<and>
    represents L (k + length (abspath cs)) im' (snd (spec_change L act pass v cs c))"
proof -
  from assms(2) obtain u base where im: "vol im = Some u" "adfToRootDir L u = adfToRootDir L v" "heap im = []"
    "names base" "cwd im = abspath base" "length (cwd im) \<le> k" by (rule representsE)
  obtain b w e where walk: "walk_to L v cs = (b, w, e)" by (cases "walk_to L v cs")
  then have walk_u: "adf_walk L (adfToRootDir L u) cs = (b, w, e)" using im(2) by (simp add: walk_to_def)
  have e: "length (abspath (base @ e)) \<le> k + length (abspath cs)" "names (base @ e)" "names (base @ cs)"
    using length_abspath_append_le [of base e] length_abspath_entered [OF walk_u] im(4-6)
      names_entered [OF walk_u assms(3)] assms(3) by auto
  have cs: "b \<Longrightarrow> e = cs" using adf_walk_entered [OF walk_u] by simp
  obtain rc v' where act: "act w (curDirPtr w) c = (rc, v')" by (cases "act w (curDirPtr w) c")
  have "change_entry L act (relpath (cs @ [c])) im =
    (if b then Some (Some rc, im\<lparr>vol := Some (adfToRootDir L v'), cwd := abspath (base @ cs)\<rparr>)
     else Some (None, im\<lparr>vol := Some w, cwd := abspath (base @ e)\<rparr>))"
    using change_entry_at [OF im(3,1,5) e(3) assms(4) _ walk_u, of act] act e(1) assms(5) im(6) by simp
  moreover have "represents L (k + length (abspath cs)) (im\<lparr>vol := Some w, cwd := abspath (base @ e)\<rparr>) w"
    by (rule representsI [where ds = "base @ e"]) (use im(3) e in auto)
  moreover have "represents L (k + length (abspath cs))
      (im\<lparr>vol := Some (adfToRootDir L v'), cwd := abspath (base @ e)\<rparr>) v'"
    by (rule representsI [where ds = "base @ e" and u = "adfToRootDir L v'"])
      (use im(3) e assms(1) in auto)
  ultimately show ?thesis using act cs by (cases b) (simp_all add: spec_change_def walk)
qed

lemma getattr_entry_refines:
  assumes "nav_ok L" "represents L k im v" "m < ADFIMAGE_MAX_PATH"
    and "names cs" "is_name c" "length (abspath (cs @ [c])) \<le> m"
  shows "\<exists>r im'. getattr_entry L (abspath (cs @ [c])) im = Some (r, im') \<and>
    fst (spec_getattr L env blksize v cs c) = (case r of None \<Rightarrow> (- ENOENT, zero_stat)
      | Some (d, sb) \<Rightarrow> (0, finish_stat env d blksize sb)) \<and>
    represents L m im' (snd (spec_getattr L env blksize v cs c))"
proof -
  obtain b w e where walk: "walk_to L v cs = (b, w, e)" by (cases "walk_to L v cs")
  let ?im2 = "im\<lparr>vol := Some w, cwd := abspath e\<rparr>"
  have len: "length (abspath cs) \<le> m" using length_abspath_append [of cs "[c]"] assms(6) by simp
  note cd = chdir_represents [OF assms(1-4) len walk]
  have heap: "heap im = []" using assms(2) by (auto simp: represents_def)
  have stay: "represents L m (im\<lparr>cwd := abspath e, vol := Some (adfToRootDir L x)\<rparr>) x" for x
    using cd(3) assms(1) by (auto simp: represents_def)
  have look: "adfimage_getdentry L c ?im2 = Some (lookup_entry L (adfGetDirEnt L w (curDirPtr w)) c, ?im2)"
    using getdentry_name [OF assms(1,5) in_sync_cwd_ok [OF cd(2)], of w] homed_id [OF assms(1) cd(2)] heap by auto
  obtain b2 w2 e2 where walk2: "walk_to L v (cs @ [c]) = (b2, w2, e2)" by (cases "walk_to L v (cs @ [c])")
  then have walk2': "adf_walk L (adfToRootDir L w) (cs @ [c]) = (b2, w2, e2)"
    using root_of_walk [OF assms(1) walk] by (simp add: walk_to_def)
  have names2: "names (cs @ [c])" using assms(4,5) by simp
  have fits2: "length (abspath e2) < ADFIMAGE_MAX_PATH"
    using length_abspath_entered [OF walk2'] assms(3,6) by simp
  have count: "adfimage_count_dir_entries L (abspath (cs @ [c])) ?im2 =
      Some (int (length (adfGetDirEnt L w2 (curDirPtr w2))), ?im2)"
    using count_dir_entries_absolute [OF assms(1) names2 in_sync_cwd_ok [OF cd(2)] _ _ walk2' fits2]
      homed_id [OF assms(1) cd(2)] heap by simp
  note run = getattr_entry_def stat_dentry_def dup_ok [OF heap] dirname_abspath [OF assms(4,5)] basename_abspath [OF assms(5)]
    cd(1) spec_getattr_def walk walk2 Let_def
  let ?d = "lookup_entry L (adfGetDirEnt L w (curDirPtr w)) c"
  obtain fl w1 where op: "adfFileOpen L w c ADF_FILE_MODE_READ = (fl, w1)"
    by (cases "adfFileOpen L w c ADF_FILE_MODE_READ")
  show ?thesis
  proof (cases b)
    case False
    then show ?thesis using cd(4) by (simp add: run)
  next
    case True
    note run2 = run True look heap count stay op stat_file_def to_root_def is_nameD(1) [OF assms(5)]
    show ?thesis
      by (cases "dtype ?d") (simp_all add: run2 stay split: option.split)
  qed
qed

subsection \<open>Operations that act wherever the current directory is\<close>

text \<open>
  Truncating goes back to the working directory before it acts; permissions, renaming and
  statistics act on sectors. What makes them independent of the current directory is that
  ADFlib's functions on sectors and open files are: \<open>ignores_cur\<close> and \<open>keeps_cur\<close> say so of a
  function that reads and of one that may write.
\<close>

definition ignores_cur :: "('d AdfVolume \<Rightarrow> 'r) \<Rightarrow> bool" where
  "ignores_cur f \<longleftrightarrow> (\<forall>v s. f (v\<lparr>curDirPtr := s\<rparr>) = f v)"

definition keeps_cur :: "('d AdfVolume \<Rightarrow> 'r \<times> 'd AdfVolume) \<Rightarrow> bool" where
  "keeps_cur f \<longleftrightarrow> (\<forall>v s. f (v\<lparr>curDirPtr := s\<rparr>) = (fst (f v), (snd (f v))\<lparr>curDirPtr := s\<rparr>))"

definition truncate_file ::
  "('d, 'f) adflib \<Rightarrow> 'f \<Rightarrow> 32 word \<Rightarrow> 'd AdfVolume \<Rightarrow> (int \<times> 'f) \<times> 'd AdfVolume" where
  "truncate_file L f n v = (case adfFileTruncate L v f n of (rc, f', v') \<Rightarrow> ((rc, f'), v'))"

definition cur_free :: "('d, 'f) adflib \<Rightarrow> bool" where
  "cur_free L \<longleftrightarrow> close_ok L \<and>
     (\<forall>s. ignores_cur (\<lambda>v. adfReadEntryBlock L v s)) \<and>
     (\<forall>s. ignores_cur (\<lambda>v. adfReadRootBlock L v s)) \<and>
     ignores_cur (adfCountFreeBlocks L) \<and>
     (\<forall>f n. keeps_cur (truncate_file L f n)) \<and>
     (\<forall>s b. keeps_cur (\<lambda>v. adfWriteEntryBlock L v s b)) \<and>
     (\<forall>s n s' n'. keeps_cur (\<lambda>v. adfRenameEntry L v s n s' n'))"

lemma cur_freeD:
  assumes "cur_free L"
  shows "close_ok L" "ignores_cur (\<lambda>v. adfReadEntryBlock L v s)" "ignores_cur (\<lambda>v. adfReadRootBlock L v s)"
    "ignores_cur (adfCountFreeBlocks L)" "keeps_cur (truncate_file L f n)"
    "keeps_cur (\<lambda>v. adfWriteEntryBlock L v s b)" "keeps_cur (\<lambda>v. adfRenameEntry L v s c s' c')"
  using assms by (simp_all add: cur_free_def)

lemma ignores_curD:
  assumes "ignores_cur f" "same_volume v w"
  shows "f w = f v"
proof -
  have "w = v\<lparr>curDirPtr := curDirPtr w\<rparr>"
    using same_volume_cur [OF same_volume_sym [OF assms(2)]] by simp
  with assms(1) show ?thesis unfolding ignores_cur_def by metis
qed

lemma keeps_curD:
  assumes "keeps_cur f" "same_volume v w" "f v = (r, v')"
  shows "\<exists>w'. f w = (r, w') \<and> same_volume v' w'"
proof -
  have "w = v\<lparr>curDirPtr := curDirPtr w\<rparr>"
    using same_volume_cur [OF same_volume_sym [OF assms(2)]] by simp
  with assms(1,3) have "f w = (r, v'\<lparr>curDirPtr := curDirPtr w\<rparr>)"
    unfolding keeps_cur_def by (metis fst_conv snd_conv)
  then show ?thesis by auto
qed

text \<open>The volume of an image that represents \<open>v\<close> is \<open>v\<close> up to the current directory.\<close>

lemma represents_same:
  assumes "nav_ok L" "represents L k im v"
  obtains u where "vol im = Some u" "same_volume v u"
proof -
  from assms(2) obtain u where u: "vol im = Some u" "adfToRootDir L u = adfToRootDir L v" by (rule representsE)
  have "same_volume v (adfToRootDir L u)" using adfToRootDir_same [OF assms(1), of v] u(2) by simp
  moreover have "same_volume (adfToRootDir L u) u"
    using adfToRootDir_same [OF assms(1), of u] by (rule same_volume_sym)
  ultimately show thesis using that [OF u(1)] by (blast intro: same_volume_trans)
qed

lemma represents_set_vol:
  "nav_ok L \<Longrightarrow> represents L k im v \<Longrightarrow> same_volume x w \<Longrightarrow> represents L k (im\<lparr>vol := Some w\<rparr>) x"
  using same_volume_root [of L x w] by (fastforce simp: represents_def)

subsection \<open>Their specifications\<close>

definition spec_truncate ::
  "('d, 'f) adflib \<Rightarrow> 64 word \<Rightarrow> 'd AdfVolume \<Rightarrow> string list \<Rightarrow> string \<Rightarrow> int \<times> 'd AdfVolume" where
  "spec_truncate L n v cs c =
     (case walk_to L v cs of (found, w, _) \<Rightarrow>
        if \<not> found then (- 1, w)
        else case adfFileOpen L w c ADF_FILE_MODE_WRITE of
          (None, w1) \<Rightarrow> (- 1, w1)
        | (Some f, w1) \<Rightarrow>
            (case truncate_file L f (ucast n) w1 of ((rc, f2), w2) \<Rightarrow>
               (if rc_ok L rc then 0 else - 1, adfFileClose L w2 (Some f2))))"

text \<open>The entry of a canonical path: the root's own, or the one listed in the directory the walk reaches.\<close>

definition spec_root :: "('d, 'f) adflib \<Rightarrow> 'd AdfVolume \<Rightarrow> adfimage_dentry" where
  "spec_root L v =
     (case adfReadRootBlock L v (rootBlock v) of (rc, blk) \<Rightarrow>
        if \<not> rc_ok L rc then no_dentry
        else case adfEntBlock2Entry L blk no_entry of (rc2, ent) \<Rightarrow>
          if \<not> rc_ok L rc2 then no_dentry\<lparr>adflib_entry := ent\<rparr>
          else if e_type ent = ADF_ST_ROOT (K L)
          then \<lparr>dtype = ADFVOLUME_DENTRY_DIRECTORY,
                adflib_entry = ent\<lparr>e_sector := rootBlock v, e_real := 0, e_parent := 0\<rparr>\<rparr>
          else no_dentry\<lparr>adflib_entry := ent\<rparr>)"

definition spec_dentry :: "('d, 'f) adflib \<Rightarrow> 'd AdfVolume \<Rightarrow> string list \<Rightarrow> adfimage_dentry" where
  "spec_dentry L v p =
     (if p = [] then spec_root L v
      else case walk_to L v (butlast p) of (_, w, _) \<Rightarrow>
        lookup_entry L (adfGetDirEnt L w (curDirPtr w)) (last p))"

definition spec_setperm ::
  "('d, 'f) adflib \<Rightarrow> 32 word \<Rightarrow> 'd AdfVolume \<Rightarrow> string list \<Rightarrow> bool \<times> 'd AdfVolume" where
  "spec_setperm L perms v p =
     (let d = spec_dentry L v p; s = e_sector (adflib_entry d) in
      if \<not> adfimage_dentry_valid d then (False, v)
      else case adfReadEntryBlock L v s of (rc, blk) \<Rightarrow>
        if \<not> rc_ok L rc then (False, v)
        else case adfWriteEntryBlock L v s (blk\<lparr>b_access := new_access L perms (b_access blk)\<rparr>) of
          (rc2, v2) \<Rightarrow> (rc_ok L rc2, v2))"

definition spec_rename ::
  "('d, 'f) adflib \<Rightarrow> 'd AdfVolume \<Rightarrow> string list \<Rightarrow> string \<Rightarrow> string list \<Rightarrow> string \<Rightarrow> int \<times> 'd AdfVolume" where
  "spec_rename L v cs c ds d =
     (let sp = spec_dentry L v cs; dp = spec_dentry L v ds in
      if dtype sp = ADFVOLUME_DENTRY_NONE then (- ENOENT, v)
      else if \<not> is_dir sp then (- EINVAL, v)
      else if dtype dp = ADFVOLUME_DENTRY_NONE then (- ENOENT, v)
      else if \<not> is_dir dp then (- EINVAL, v)
      else if parent_sector sp < 2 \<or> parent_sector dp < 2 then (- 1, v)
      else case adfRenameEntry L v (parent_sector sp) c (parent_sector dp) d of
        (rc, v') \<Rightarrow> (if rc_ok L rc then 0 else - 1, v'))"

subsection \<open>Their refinement\<close>

lemma root_dentry_refines:
  assumes "nav_ok L" "cur_free L" "represents L k im v"
  shows "adfimage_get_root_dentry L im = Some (spec_root L v)"
proof -
  from represents_same [OF assms(1,3)] obtain u where u: "vol im = Some u" "same_volume v u" .
  then have "rootBlock u = rootBlock v"
    by (cases v; cases u) (simp add: same_volume_def)
  with u ignores_curD [OF cur_freeD(3) [OF assms(2)] u(2)] show ?thesis
    by (simp add: adfimage_get_root_dentry_def spec_root_def split: prod.split)
qed

lemma getdentry_refines:
  assumes "nav_ok L" "cur_free L" "represents L k im v" "k < ADFIMAGE_MAX_PATH"
    and "names p" "length (abspath p) \<le> k"
  shows "\<exists>im'. adfimage_getdentry L (abspath p) im = Some (spec_dentry L v p, im') \<and> represents L k im' v"
proof (cases p rule: rev_cases)
  case Nil
  with root_dentry_refines [OF assms(1-3)] assms(3) show ?thesis
    by (simp add: adfimage_getdentry_def spec_dentry_def)
next
  case (snoc cs c)
  then have n: "names cs" "is_name c" and len: "length (abspath cs) \<le> k"
    using assms(5,6) length_abspath_append [of cs "[c]"] by auto
  obtain b w e where walk: "walk_to L v cs = (b, w, e)" by (cases "walk_to L v cs")
  note cd = chdir_represents [OF assms(1,3,4) n(1) len walk]
  have heap: "heap im = []" using assms(3) by (auto simp: represents_def)
  have "heap (im\<lparr>vol := Some w, cwd := abspath e\<rparr>) = []" using heap by simp
  from there_and_back [OF assms(1,3,4) _ this, of w] obtain im' where
    home: "go_back L (Some (cwd im)) (im\<lparr>vol := Some w, cwd := abspath e\<rparr>) = Some im'" "represents L k im' w"
    by auto
  have same: "represents L k x w \<Longrightarrow> represents L k x v" for x
    using root_of_walk [OF assms(1) walk] by (simp add: represents_def)
  have "abspath p \<noteq> ''/''" using snoc assms(5) by simp
  with cd(1,4) home heap n same snoc walk show ?thesis
    by (auto simp: adfimage_getdentry_def path_simps lookup_entry_def spec_dentry_def Let_def dup_ok
        split: option.split)
qed

lemma setperm_refines:
  assumes "nav_ok L" "cur_free L" "represents L k im v" "k < ADFIMAGE_MAX_PATH"
    and "names p" "length (abspath p) \<le> k"
  shows "\<exists>im'. adfimage_setperm L (abspath p) perms im = Some (fst (spec_setperm L perms v p), im') \<and>
    represents L k im' (snd (spec_setperm L perms v p))"
proof -
  let ?d = "spec_dentry L v p"
  let ?s = "e_sector (adflib_entry ?d)"
  from getdentry_refines [OF assms] obtain im1 where
    look: "adfimage_getdentry L (abspath p) im = Some (?d, im1)" and rep: "represents L k im1 v" by blast
  from represents_same [OF assms(1) rep] obtain u where u: "vol im1 = Some u" "same_volume v u" .
  obtain rc blk where rd: "adfReadEntryBlock L v ?s = (rc, blk)" by (cases "adfReadEntryBlock L v ?s")
  then have rd': "adfReadEntryBlock L u ?s = (rc, blk)"
    using ignores_curD [OF cur_freeD(2) [OF assms(2)] u(2)] by simp
  let ?blk = "blk\<lparr>b_access := new_access L perms (b_access blk)\<rparr>"
  obtain rc2 v2 where wr: "adfWriteEntryBlock L v ?s ?blk = (rc2, v2)" by (cases "adfWriteEntryBlock L v ?s ?blk")
  from keeps_curD [OF cur_freeD(6) [OF assms(2)] u(2) this] obtain u2 where
    wr': "adfWriteEntryBlock L u ?s ?blk = (rc2, u2)" "same_volume v2 u2" by blast
  from represents_set_vol [OF assms(1) rep wr'(2)] look rep u(1) rd rd' wr wr'(1) show ?thesis
    by (simp add: adfimage_setperm_def spec_setperm_def Let_def)
qed

lemma rename_refines:
  assumes "nav_ok L" "cur_free L" "represents L k im v" "k < ADFIMAGE_MAX_PATH"
    and "names cs" "is_name c" "names ds" "is_name d" "length (abspath cs) \<le> k" "length (abspath ds) \<le> k"
    and "\<not> dotted cs" "\<not> dotted ds"
  shows "\<exists>im'. adfimage_file_rename L (abspath (cs @ [c])) (abspath (ds @ [d])) im =
      Some (Ret (fst (spec_rename L v cs c ds d), im')) \<and>
    represents L k im' (snd (spec_rename L v cs c ds d))"
proof -
  let ?sp = "spec_dentry L v cs" and ?dp = "spec_dentry L v ds"
  have heap: "heap im = []" using assms(3) by (auto simp: represents_def)
  from getdentry_refines [OF assms(1-5,9)] obtain im1 where
    look: "adfimage_getdentry L (abspath cs) im = Some (?sp, im1)" and rep: "represents L k im1 v" by blast
  from getdentry_refines [OF assms(1,2) rep assms(4,7,10)] obtain im2 where
    look2: "adfimage_getdentry L (abspath ds) im1 = Some (?dp, im2)" and rep2: "represents L k im2 v" by blast
  from represents_same [OF assms(1) rep2] obtain u where u: "vol im2 = Some u" "same_volume v u" .
  obtain rc v' where rn: "adfRenameEntry L v (parent_sector ?sp) c (parent_sector ?dp) d = (rc, v')"
    by (cases "adfRenameEntry L v (parent_sector ?sp) c (parent_sector ?dp) d")
  from keeps_curD [OF cur_freeD(7) [OF assms(2)] u(2) this] obtain u' where
    rn': "adfRenameEntry L u (parent_sector ?sp) c (parent_sector ?dp) d = (rc, u')" "same_volume v' u'" by blast
  have "\<exists>im'. rename_entries L (abspath cs) c (abspath ds) d im = Some (fst (spec_rename L v cs c ds d), im') \<and>
      represents L k im' (snd (spec_rename L v cs c ds d))"
    using represents_set_vol [OF assms(1) rep2 rn'(2)] look look2 rep rep2 u(1) rn rn'(1)
    by (auto simp: rename_entries_def spec_rename_def Let_def is_dir_def)
  then show ?thesis
    using rename_canonical [OF assms(5-8) heap, of L] assms(11,12) by (auto simp: returns_def)
qed

lemma truncate_refines:
  assumes "nav_ok L" "cur_free L" "represents L k im v" "k < ADFIMAGE_MAX_PATH"
    and "names cs" "is_name c" "length (abspath cs) \<le> k"
  shows "\<exists>r im'. adfimage_file_truncate L (abspath (cs @ [c])) n im = Some (r, im') \<and>
    fst (spec_truncate L n v cs c) = (if r = 0 then 0 else - 1) \<and>
    represents L k im' (snd (spec_truncate L n v cs c))"
proof -
  obtain b w e where walk: "walk_to L v cs = (b, w, e)" by (cases "walk_to L v cs")
  note here = in_directory [OF assms(1,3-7) walk]
  note run = spec_truncate_def walk adfimage_file_truncate_def adfimage_file_open_def adfimage_file_close_def
    new_path_ok [OF here(2)] dirname_abspath [OF assms(5,6)] basename_abspath [OF assms(6)] here(1)
  obtain fl w1 where op: "adfFileOpen L w c ADF_FILE_MODE_WRITE = (fl, w1)"
    by (cases "adfFileOpen L w c ADF_FILE_MODE_WRITE")
  show ?thesis
  proof (cases "b \<and> fl \<noteq> None")
    case False
    then show ?thesis using here(3,4) op by (cases b) (simp_all add: run ENOENT_def)
  next
    case True
    then obtain f where f: "fl = Some f" by blast
    have "heap (im\<lparr>cwd := abspath e, vol := Some w1\<rparr>) = []" using here(2) by simp
    from there_and_back [OF assms(1,3,4) _ this, of w1] obtain im1 u1 where
      home: "go_back L (Some (cwd im)) (im\<lparr>cwd := abspath e, vol := Some w1\<rparr>) = Some im1"
      "represents L k im1 w1" "vol im1 = Some u1" "same_volume w1 u1" by auto
    obtain rc f2 w2 where tr: "truncate_file L f (ucast n) w1 = ((rc, f2), w2)"
      by (metis surj_pair)
    from keeps_curD [OF cur_freeD(5) [OF assms(2)] home(4) this] obtain u2 where
      "truncate_file L f (ucast n) u1 = ((rc, f2), u2)" and u2: "same_volume w2 u2" by blast
    then have tr': "adfFileTruncate L u1 f (ucast n) = (rc, f2, u2)"
      by (simp add: truncate_file_def split: prod.split_asm)
    have "represents L k (im1\<lparr>vol := Some u2\<rparr>) w2" by (rule represents_set_vol [OF assms(1) home(2) u2])
    from represents_close [OF assms(1) cur_freeD(1) [OF assms(2)] this _ u2, of "Some f2"] home(1,3) True f op tr tr'
    show ?thesis by (simp add: run)
  qed
qed

end
