(* ===== verification/Adffs_Refine.thy ===== *)
theory Adffs_Refine
  imports Adffs_Spec
begin

section \<open>Whole requests, and sequences of them\<close>

text \<open>
  The specification of a request on its path string, the refinement of the handler table by
  it, and, through the locale \<open>simulation\<close>, of any sequence of requests: what FUSE gets
  to see depends on the volume alone.
\<close>

subsection \<open>Frames of the handlers\<close>

lemma stat_file_same_mount: "stat_file L name sb im = Some (r, im') \<Longrightarrow> same_mount im im'"
  by (auto simp: stat_file_def bind_Some_iff Let_def split_beta)

lemma stat_dentry_same_mount: "stat_dentry L path name d im = Some (r, im') \<Longrightarrow> same_mount im im'"
  by (auto simp: stat_dentry_def bind_pair_Some_iff split: if_split_asm
      dest: stat_file_same_mount adfimage_count_dir_entries.keeps_mount)

lemma getattr_entry_same_mount:
  assumes "getattr_entry L path im = Some (r, im')"
  shows "same_mount im im'"
proof -
  obtain buf im1 where d1: "dup path im = (buf, im1)" by (cases "dup path im")
  from assms d1 obtain ok im2 where cd: "adfimage_chdir L (dirname_ptr buf) im1 = Some (ok, im2)"
    by (auto simp: getattr_entry_def bind_pair_Some_iff)
  obtain buf2 im3 where d2: "dup path im2 = (buf2, im3)" by (cases "dup path im2")
  have start: "same_mount im im2" "same_mount im im3"
    using dup_frame [OF d1] dup_frame [OF d2] adfimage_chdir.keeps_mount [OF cd]
    by (blast intro: same_mount_trans)+
  show ?thesis
  proof (cases ok)
    case False
    with assms d1 cd start show ?thesis by (simp add: getattr_entry_def)
  next
    case True
    let ?name = "if basename_ptr buf2 = [] then ''.'' else basename_ptr buf2"
    from assms d1 cd d2 True obtain de im4 sb im5 where
      look: "adfimage_getdentry L ?name im3 = Some (de, im4)"
      and st: "stat_dentry L path ?name de im4 = Some (sb, im5)" and root: "to_root L im5 = Some im'"
      unfolding getattr_entry_def Let_def by (auto simp: bind_pair_Some_iff bind_Some_iff)
    from adfimage_getdentry.keeps_mount [OF look] stat_dentry_same_mount [OF st] to_root_same_mount [OF root]
    have "same_mount im3 im'" by (blast intro: same_mount_trans)
    with start(2) show ?thesis by (rule same_mount_trans)
  qed
qed

interpretation getattr_image: image_op "getattr_image L env path" for L :: "('d, 'f) adflib" and env path
  by unfold_locales
    (auto simp: getattr_image_def bind_Some_iff bind_pair_Some_iff split: if_split_asm
      dest: getattr_entry_same_mount)

lemma readdir_image_same_mount:
  assumes "readdir_image L path filler b im = Some (r, im')"
  shows "same_mount im im'"
proof -
  from assms obtain ok im1 where cd: "adfimage_chdir L path im = Some (ok, im1)"
    by (auto simp: readdir_image_def bind_pair_Some_iff)
  with assms have "to_root L im1 = Some im'"
    by (cases ok) (simp_all add: readdir_image_def bind_Some_iff split_beta Let_def, blast+)
  with cd show ?thesis
    using adfimage_chdir.keeps_mount to_root_same_mount by (blast intro: same_mount_trans)
qed

interpretation readdir_image: image_op "readdir_image L path filler b"
  for L :: "('d, 'f) adflib" and path and filler :: "'b filler" and b
  by unfold_locales (rule readdir_image_same_mount)

interpretation open_image: image_op "open_image L path" for L :: "('d, 'f) adflib" and path
  by unfold_locales
    (auto simp: open_image_def bind_pair_Some_iff bind_Some_iff
      dest!: adfimage_file_open.keeps_mount file_close_same_mount intro: same_mount_trans)

subsection \<open>Every handler keeps the mount\<close>

text \<open>The image stays the one that was opened, and the mount point stays.\<close>

definition same_fs :: "'d adffs_state \<Rightarrow> 'd adffs_state \<Rightarrow> bool" where
  "same_fs st st' \<longleftrightarrow>
     mountpoint st' = mountpoint st \<and> logfile st' = logfile st \<and>
     (case image st of None \<Rightarrow> image st' = None
      | Some im \<Rightarrow> \<exists>im'. image st' = Some im' \<and> same_mount im im')"

lemma same_fs_refl [simp]: "same_fs st st"
  by (auto simp: same_fs_def split: option.split)

lemma same_fs_trans: "same_fs a b \<Longrightarrow> same_fs b c \<Longrightarrow> same_fs a c"
  by (auto simp: same_fs_def split: option.split_asm intro: same_mount_trans)

lemma on_image_same_fs:
  assumes "\<And>im r im'. f im = Some (r, im') \<Longrightarrow> same_mount im im'" "on_image f st = Some (r, st')"
  shows "same_fs st st'"
  using assms(2) by (auto simp: on_image_def adffs_get_state_def same_fs_def bind_Some_iff bind_pair_Some_iff
      dest: assms(1))

lemma reply_with_Ret:
  "reply_with f r = Some (Ret (out, st')) \<longleftrightarrow> (\<exists>x. r = Some (x, st') \<and> out = f x)"
  by (auto simp: reply_with_def returns_def split: option.splits)

lemma adffs_oper_same_fs:
  assumes "adffs_oper L env r st = Some (Ret (out, st'))"
  shows "same_fs st st'"
proof (cases r)
  case (Rename p q)
  with assms adfimage_file_rename_same_mount show ?thesis
    by (auto simp: adffs_rename_def adffs_get_state_def same_fs_def
        split: option.split_asm cres.split_asm prod.split_asm)
qed (use assms in \<open>auto simp: reply_with_Ret adffs_getattr_def adffs_readlink_def adffs_mkdir_def
    adffs_unlink_def adfimage_unlink_def adffs_rmdir_def adfimage_rmdir_def adffs_chmod_def adffs_chown_def
    adffs_truncate_def adffs_open_def adffs_read_def adffs_write_def adffs_statfs_def adffs_readdir_def
    adffs_create_def adffs_utimens_def Let_def bind_pair_Some_iff bind_Some_iff
    elim!: on_image_same_fs [rotated]
    dest: getattr_image.keeps_mount adfimage_readlink_same_mount adfimage_mkdir.keeps_mount
      adfimage_remove_entry.keeps_mount adfimage_setperm.keeps_mount adfimage_file_truncate.keeps_mount
      open_image.keeps_mount adfimage_read_same_mount adfimage_write.keeps_mount readdir_image.keeps_mount
      adfimage_create.keeps_mount\<close>)

subsection \<open>Requests on canonical paths\<close>

text \<open>The components of a path: the inverse of \<open>abspath\<close>.\<close>

function split_path :: "string \<Rightarrow> string list" where
  "split_path s =
     (case strchr_cut s slash of
        None \<Rightarrow> [s]
      | Some (d, rest) \<Rightarrow> d # split_path rest)"
  by pat_completeness auto
termination
  by (relation "measure length")
    (auto simp: strchr_cut_def split: if_splits dest: length_tl_dropWhile_less)

declare split_path.simps [simp del]

definition components :: "string \<Rightarrow> string list" where
  "components p = (if p = ''/'' then [] else split_path (tl p))"

lemma split_path_relpath: "names cs \<Longrightarrow> cs \<noteq> [] \<Longrightarrow> split_path (relpath cs) = cs"
proof (induction cs)
  case Nil
  then show ?case by simp
next
  case (Cons c cs)
  then show ?case
    using strchr_cut_relpath [of c cs] by (subst split_path.simps) (auto split: if_splits)
qed

lemma components_abspath: "names cs \<Longrightarrow> components (abspath cs) = cs"
  using split_path_relpath [of cs] by (auto simp: components_def relpath_def)

definition canonical :: "string \<Rightarrow> bool" where
  "canonical p \<longleftrightarrow> list_all is_name (components p) \<and> abspath (components p) = p"

text \<open>A canonical path that is not the root, taken apart.\<close>

lemma canonical_entryE:
  assumes "canonical p" "p \<noteq> ''/''"
  obtains cs c where "names cs" "is_name c" "p = abspath (cs @ [c])"
    "butlast (components p) = cs" "last (components p) = c"
proof -
  from assms have "components p \<noteq> []" by (auto simp: canonical_def)
  then obtain cs c where "components p = cs @ [c]" by (metis append_butlast_last_id)
  with assms(1) show thesis using that by (auto simp: canonical_def list_all_iff)
qed

lemma canonicalI: "names cs \<Longrightarrow> canonical (abspath cs)"
  by (simp add: canonical_def components_abspath list_all_iff)

fun request_path :: "request \<Rightarrow> string" where
  "request_path (Getattr p) = p"
| "request_path (Readlink p b n) = p"
| "request_path (Mkdir p m) = p"
| "request_path (Unlink p) = p"
| "request_path (Rmdir p) = p"
| "request_path (Rename p q) = p"
| "request_path (Chmod p m) = p"
| "request_path (Chown p u g) = p"
| "request_path (Truncate p n) = p"
| "request_path (Open p) = p"
| "request_path (Read p b n off) = p"
| "request_path (Write p b n off) = p"
| "request_path (Statfs p) = p"
| "request_path (Readdir p n) = p"
| "request_path (Create p m) = p"
| "request_path (Utimens p tv) = p"

text \<open>
  The requests the specification covers: all with a canonical path below the root, and on the
  root itself listing it, its permissions, owner and times, and the statistics. Of the others on
  the root FUSE makes \<open>getattr\<close> only, whose size is that of the current directory, wherever it was
  left; \<open>Adffs_Runs\<close> adds it.
\<close>

fun covered :: "request \<Rightarrow> bool" where
  "covered (Rename p q) = (canonical p \<and> p \<noteq> ''/'' \<and> canonical q \<and> q \<noteq> ''/'')"
| "covered (Chmod p m) = canonical p"
| "covered (Statfs p) = True"
| "covered (Chown p u g) = True"
| "covered (Utimens p tv) = True"
| "covered (Readdir p n) = canonical p"
| "covered r = (canonical (request_path r) \<and> request_path r \<noteq> ''/'')"

fun spec_oper ::
  "('d, 'f) adflib \<Rightarrow> fuse_env \<Rightarrow> int \<Rightarrow> request \<Rightarrow> 'd AdfVolume \<Rightarrow> (reply \<times> 'd AdfVolume) option" where
  "spec_oper L env blksize (Getattr p) v =
     (case spec_getattr L env blksize v (butlast (components p)) (last (components p)) of
        ((n, sb), v') \<Rightarrow> Some (StatReply n sb, v'))"
| "spec_oper L env blksize (Readlink p b n) v =
     map_option (\<lambda>((n, b), v'). (BufferReply n b, v'))
       (spec_readlink L b n v (butlast (components p)) (last (components p)))"
| "spec_oper L env blksize (Mkdir p m) v =
     (case spec_change L (adfCreateDir L) (\<lambda>rc. rc) v (butlast (components p)) (last (components p)) of
        (n, v') \<Rightarrow> Some (Status n, v'))"
| "spec_oper L env blksize (Unlink p) v =
     (case spec_change L (adfRemoveEntry L) (\<lambda>rc. rc) v (butlast (components p)) (last (components p)) of
        (n, v') \<Rightarrow> Some (Status n, v'))"
| "spec_oper L env blksize (Rmdir p) v =
     (case spec_change L (adfRemoveEntry L) (\<lambda>rc. rc) v (butlast (components p)) (last (components p)) of
        (n, v') \<Rightarrow> Some (Status n, v'))"
| "spec_oper L env blksize (Create p m) v =
     (case spec_change L (adfCreateFile L) (\<lambda>rc. if rc_ok L rc then 0 else - 1) v
             (butlast (components p)) (last (components p)) of
        (n, v') \<Rightarrow> Some (Status n, v'))"
| "spec_oper L env blksize (Open p) v =
     (case spec_open L v (butlast (components p)) (last (components p)) of (n, v') \<Rightarrow> Some (Status n, v'))"
| "spec_oper L env blksize (Read p b n off) v =
     map_option (\<lambda>((n, b), v'). (BufferReply n b, v'))
       (spec_read L b n off v (butlast (components p)) (last (components p)))"
| "spec_oper L env blksize (Write p b n off) v =
     map_option (\<lambda>(n, v'). (Status n, v'))
       (spec_write L b n off v (butlast (components p)) (last (components p)))"
| "spec_oper L env blksize (Readdir p n) v =
     (case spec_readdir L (list_filler n) [] v (components p) of
        ((r, listed), v') \<Rightarrow> Some (NamesReply r listed, v'))"
| "spec_oper L env blksize (Rename p q) v =
     (case spec_rename L v (butlast (components p)) (last (components p)) (butlast (components q)) (last (components q)) of
        (n, v') \<Rightarrow> Some (Status n, v'))"
| "spec_oper L env blksize (Chmod p m) v =
     (case spec_setperm L (chmod_perms m) v (components p) of
        (ok, v') \<Rightarrow> Some (Status (if ok then 0 else EINVAL), v'))"
| "spec_oper L env blksize (Truncate p n) v =
     (case spec_truncate L n v (butlast (components p)) (last (components p)) of (r, v') \<Rightarrow> Some (Status r, v'))"
| "spec_oper L env blksize (Statfs p) v =
     Some (StatvfsReply
       \<lparr>f_bsize = datablockSize v, f_frsize = datablockSize v, f_blocks = lastBlock v - firstBlock v - 2,
        f_bfree = adfCountFreeBlocks L v, f_bavail = adfCountFreeBlocks L v, f_files = 1, f_ffree = 1,
        f_favail = 1, f_rdonly = vol_readOnly v, f_nosuid = True, f_namemax = 30\<rparr>, v)"
| "spec_oper L env blksize (Chown p u g) v = Some (Status 0, v)"
| "spec_oper L env blksize (Utimens p tv) v = Some (Status 0, v)"

text \<open>The renames that do not return: below a directory whose name has dots the code rewrites.\<close>

fun hangs :: "request \<Rightarrow> bool" where
  "hangs (Rename p q) = (dotted (butlast (components p)) \<or> dotted (butlast (components q)))"
| "hangs r = False"

text \<open>
  The specification of a request with all its outcomes: it does not return, is undefined, or gives
  a reply and a volume.
\<close>

definition spec_step ::
  "('d, 'f) adflib \<Rightarrow> fuse_env \<Rightarrow> int \<Rightarrow> request \<Rightarrow> 'd AdfVolume \<Rightarrow> (reply \<times> 'd AdfVolume) cres option" where
  "spec_step L env blksize r v =
     (if hangs r then None
      else Some (case spec_oper L env blksize r v of None \<Rightarrow> UB | Some x \<Rightarrow> Ret x))"

text \<open>
  How long \<open>cwd\<close> can be after a request, if it was at most \<open>k\<close> characters before: \<open>getattr\<close> and
  \<open>readdir\<close> set it anew, creating and removing append to it, the others put it back, or leave it
  in the directory when they fail.
\<close>

fun cwd_bound :: "nat \<Rightarrow> request \<Rightarrow> nat" where
  "cwd_bound k (Mkdir p m) = k + length (abspath (butlast (components p)))"
| "cwd_bound k (Unlink p) = k + length (abspath (butlast (components p)))"
| "cwd_bound k (Rmdir p) = k + length (abspath (butlast (components p)))"
| "cwd_bound k (Create p m) = k + length (abspath (butlast (components p)))"
| "cwd_bound k (Rename p q) = max k (max (length p) (length q))"
| "cwd_bound k (Getattr p) = length p"
| "cwd_bound k (Readdir p n) = length p"
| "cwd_bound k (Statfs p) = k"
| "cwd_bound k (Chown p u g) = k"
| "cwd_bound k (Utimens p tv) = k"
| "cwd_bound k r = max k (length (request_path r))"

text \<open>The state of the file system represents the volume.\<close>

definition fs_represents ::
  "('d, 'f) adflib \<Rightarrow> int \<Rightarrow> nat \<Rightarrow> 'd adffs_state \<Rightarrow> 'd AdfVolume \<Rightarrow> bool" where
  "fs_represents L blksize k st v \<longleftrightarrow>
     (\<exists>im. image st = Some im \<and> fstat_blksize im = blksize \<and> represents L k im v)"

subsection \<open>Each request refines its specification\<close>

definition refined ::
  "('d, 'f) adflib \<Rightarrow> int \<Rightarrow> nat \<Rightarrow> ('o \<times> 'd adffs_state) cres option \<Rightarrow> ('o \<times> 'd AdfVolume) option \<Rightarrow> bool" where
  "refined L blksize k result spec \<longleftrightarrow>
     (case spec of
        None \<Rightarrow> result = Some UB
      | Some (out, v') \<Rightarrow> \<exists>st'. result = Some (Ret (out, st')) \<and> fs_represents L blksize k st' v')"

lemma refined_UB:
  "image st = Some im \<Longrightarrow> f im = None \<Longrightarrow> refined L blk k (reply_with g (on_image f st)) None"
  by (simp add: refined_def reply_with_def returns_def on_image_def adffs_get_state_def)

lemma refined_Ret:
  assumes "image st = Some im" "fstat_blksize im = blk" "f im = Some (r, im')" "same_mount im im'"
    and "represents L k im' v'"
  shows "refined L blk k (reply_with g (on_image f st)) (Some (g r, v'))"
  using assms
  by (auto simp: refined_def reply_with_def returns_def on_image_def adffs_get_state_def fs_represents_def
      same_mount_def)

lemma fs_representsE:
  assumes "fs_represents L blk k st v"
  obtains im where "image st = Some im" "fstat_blksize im = blk" "represents L k im v"
  using assms by (auto simp: fs_represents_def)

text \<open>The requests that create or remove an entry.\<close>

lemma change_oper_refined:
  assumes "nav_ok L" "fs_represents L blk k st v" "canonical p" "p \<noteq> ''/''"
    and "k + length (abspath (butlast (components p))) < ADFIMAGE_MAX_PATH"
    and f: "\<And>im. pathstr_get_relative p \<noteq> [] \<Longrightarrow> f im = change_entry L act (pathstr_get_relative p) im \<bind>
      (\<lambda>(status, im'). Some (case status of None \<Rightarrow> - ENOENT | Some rc \<Rightarrow> pass rc, im'))"
    and g: "\<And>im r im'. f im = Some (r, im') \<Longrightarrow> same_mount im im'"
  shows "refined L blk (k + length (abspath (butlast (components p)))) (reply_with Status (on_image f st))
    (case spec_change L act pass v (butlast (components p)) (last (components p)) of
       (n, v') \<Rightarrow> Some (Status n, v'))"
proof -
  from canonical_entryE [OF assms(3,4)] obtain cs c where
    p: "names cs" "is_name c" "p = abspath (cs @ [c])" "butlast (components p) = cs" "last (components p) = c" .
  from assms(2) obtain im where
    im: "image st = Some im" "fstat_blksize im = blk" "represents L k im v" by (rule fs_representsE)
  have rel: "pathstr_get_relative p = relpath (cs @ [c])" using p(1-3) by simp
  have "k + length (abspath cs) < ADFIMAGE_MAX_PATH" using assms(5) p(4) by simp
  from change_refines [OF assms(1) im(3) p(1,2) this, of act pass] obtain r im' where
    run: "change_entry L act (relpath (cs @ [c])) im = Some (r, im')"
    and res: "fst (spec_change L act pass v cs c) = (case r of None \<Rightarrow> - ENOENT | Some rc \<Rightarrow> pass rc)"
    and rep: "represents L (k + length (abspath cs)) im' (snd (spec_change L act pass v cs c))" by blast
  from run have fr: "f im = Some (fst (spec_change L act pass v cs c), im')"
    using f relpath_snoc_nonempty [OF p(1,2)] by (simp add: rel res)
  from refined_Ret [where f = f and g = Status, OF im(1,2) fr g [OF fr] rep] p(4,5) show ?thesis
    by (simp add: split_beta)
qed

lemma mkdir_refined:
  assumes "nav_ok L" "fs_represents L blk k st v" "covered (Mkdir p m)" "cwd_bound k (Mkdir p m) < ADFIMAGE_MAX_PATH"
  shows "refined L blk (cwd_bound k (Mkdir p m)) (adffs_oper L env (Mkdir p m) st) (spec_oper L env blk (Mkdir p m) v)"
proof -
  have "refined L blk (k + length (abspath (butlast (components p)))) (reply_with Status (on_image (adfimage_mkdir L p m) st))
    (case spec_change L (adfCreateDir L) (\<lambda>rc. rc) v (butlast (components p)) (last (components p)) of
       (n, v') \<Rightarrow> Some (Status n, v'))"
    by (rule change_oper_refined [where f = "adfimage_mkdir L p m", OF assms(1,2) _ _ _ _ adfimage_mkdir.keeps_mount])
      (use assms(3,4) in \<open>auto simp: adfimage_mkdir_def Let_def\<close>)
  then show ?thesis by (simp add: adffs_mkdir_def Let_def)
qed

lemma remove_refined:
  assumes "nav_ok L" "fs_represents L blk k st v" "canonical p" "p \<noteq> ''/''"
    and "cwd_bound k (Unlink p) < ADFIMAGE_MAX_PATH"
  shows "refined L blk (cwd_bound k (Unlink p)) (reply_with Status (on_image (adfimage_remove_entry L p) st))
    (spec_oper L env blk (Unlink p) v)"
proof -
  have "refined L blk (k + length (abspath (butlast (components p)))) (reply_with Status (on_image (adfimage_remove_entry L p) st))
    (case spec_change L (adfRemoveEntry L) (\<lambda>rc. rc) v (butlast (components p)) (last (components p)) of
       (n, v') \<Rightarrow> Some (Status n, v'))"
    by (rule change_oper_refined [where f = "adfimage_remove_entry L p", OF assms(1-4) _ _ adfimage_remove_entry.keeps_mount])
      (use assms(5) in \<open>auto simp: adfimage_remove_entry_def Let_def\<close>)
  then show ?thesis by (simp add: Let_def)
qed

lemma create_refined:
  assumes "nav_ok L" "fs_represents L blk k st v" "covered (Create p m)" "cwd_bound k (Create p m) < ADFIMAGE_MAX_PATH"
  shows "refined L blk (cwd_bound k (Create p m)) (adffs_oper L env (Create p m) st) (spec_oper L env blk (Create p m) v)"
proof -
  have "refined L blk (k + length (abspath (butlast (components p)))) (reply_with Status (on_image (adfimage_create L p m) st))
    (case spec_change L (adfCreateFile L) (\<lambda>rc. if rc_ok L rc then 0 else - 1) v
        (butlast (components p)) (last (components p)) of
       (n, v') \<Rightarrow> Some (Status n, v'))"
    by (rule change_oper_refined [where f = "adfimage_create L p m", OF assms(1,2) _ _ _ _ adfimage_create.keeps_mount])
      (use assms(3,4) in \<open>auto simp: adfimage_create_def Let_def\<close>)
  then show ?thesis by (simp add: adffs_create_def Let_def)
qed

text \<open>The requests that leave \<open>cwd\<close> no longer than the path or what it was.\<close>

lemma canonical_bounds:
  assumes "canonical p" "p \<noteq> ''/''" "max k (length p) = n"
  obtains cs c where "names cs" "is_name c" "p = abspath (cs @ [c])"
    "butlast (components p) = cs" "last (components p) = c" "length (abspath cs) \<le> n"
    "length (abspath (cs @ [c])) \<le> n" "k \<le> n"
proof -
  from canonical_entryE [OF assms(1,2)] obtain cs c where
    p: "names cs" "is_name c" "p = abspath (cs @ [c])" "butlast (components p) = cs" "last (components p) = c" .
  moreover have "length (abspath cs) \<le> length p" using length_abspath_append [of cs "[c]"] p(3) by simp
  ultimately show thesis using that assms(3) by fastforce
qed

lemma getattr_refined:
  assumes "nav_ok L" "fs_represents L blk k st v" "covered (Getattr p)" "cwd_bound k (Getattr p) < ADFIMAGE_MAX_PATH"
  shows "refined L blk (cwd_bound k (Getattr p)) (adffs_oper L env (Getattr p) st)
    (spec_oper L env blk (Getattr p) v)"
proof -
  from assms(3) have can: "canonical p" "p \<noteq> ''/''" by simp_all
  from canonical_entryE [OF can] obtain cs c where
    p: "names cs" "is_name c" "p = abspath (cs @ [c])" "butlast (components p) = cs" "last (components p) = c" .
  then have len: "length (abspath (cs @ [c])) \<le> length p" by simp
  from assms(2) obtain im where
    im: "image st = Some im" "fstat_blksize im = blk" "represents L k im v" by (rule fs_representsE)
  have lt: "length p < ADFIMAGE_MAX_PATH" using assms(4) by simp
  from getattr_entry_refines [OF assms(1) im(3) lt p(1,2) len, of env blk]
  obtain r im' where
    run: "getattr_entry L p im = Some (r, im')"
    and res: "fst (spec_getattr L env blk v cs c) = (case r of None \<Rightarrow> (- ENOENT, zero_stat)
      | Some (d, sb) \<Rightarrow> (0, finish_stat env d blk sb))"
    and rep: "represents L (length p) im' (snd (spec_getattr L env blk v cs c))"
    unfolding p(3) by blast
  have "pathstr_get_relative p \<noteq> []" using relpath_snoc_nonempty [OF p(1,2)] p(1-3) by simp
  then have fr: "getattr_image L env p im = Some (fst (spec_getattr L env blk v cs c), im')"
    using run im(2) by (cases r) (auto simp: getattr_image_def res)
  from refined_Ret [where f = "getattr_image L env p" and g = "\<lambda>(n, sb). StatReply n sb",
      OF im(1,2) fr getattr_image.keeps_mount [OF fr] rep] p(4,5)
  show ?thesis by (simp add: adffs_getattr_def split_beta)
qed

lemma readdir_refined:
  assumes "nav_ok L" "fs_represents L blk k st v" "covered (Readdir p n)" "cwd_bound k (Readdir p n) < ADFIMAGE_MAX_PATH"
  shows "refined L blk (cwd_bound k (Readdir p n)) (adffs_oper L env (Readdir p n) st)
    (spec_oper L env blk (Readdir p n) v)"
proof -
  let ?cs = "components p" and ?f = "readdir_image L p (list_filler n) []"
  have p: "names ?cs" "abspath ?cs = p" using assms(3) by (simp_all add: canonical_def list_all_iff)
  from assms(2) obtain im where
    im: "image st = Some im" "fstat_blksize im = blk" "represents L k im v" by (rule fs_representsE)
  have "length p < ADFIMAGE_MAX_PATH" "length (abspath ?cs) \<le> length p" using assms(4) p(2) by simp_all
  then obtain im' where
    fr: "?f im = Some (fst (spec_readdir L (list_filler n) [] v ?cs), im')"
    and rep: "represents L (length p) im' (snd (spec_readdir L (list_filler n) [] v ?cs))"
    using readdir_refines [OF assms(1) im(3) _ p(1), of "length p" "list_filler n" "[]"] p(2) by auto
  from refined_Ret [where f = ?f and g = "\<lambda>(r, listed). NamesReply r listed",
      OF im(1,2) fr readdir_image.keeps_mount [OF fr] rep]
  show ?thesis by (simp add: adffs_readdir_def split_beta)
qed

lemma open_refined:
  assumes "nav_ok L" "close_ok L" "fs_represents L blk k st v" "covered (Open p)" "cwd_bound k (Open p) < ADFIMAGE_MAX_PATH"
  shows "refined L blk (cwd_bound k (Open p)) (adffs_oper L env (Open p) st) (spec_oper L env blk (Open p) v)"
proof -
  from assms(4) have can: "canonical p" "p \<noteq> ''/''" by simp_all
  from canonical_bounds [OF can refl, of k] obtain cs c where
    p: "names cs" "is_name c" "p = abspath (cs @ [c])" "butlast (components p) = cs" "last (components p) = c"
    "length (abspath cs) \<le> max k (length p)" "k \<le> max k (length p)" .
  from assms(3) obtain im where
    im: "image st = Some im" "fstat_blksize im = blk" "represents L k im v" by (rule fs_representsE)
  have lt: "max k (length p) < ADFIMAGE_MAX_PATH" using assms(5) by simp
  from open_refines [OF assms(1) represents_mono [OF im(3) p(7)] lt p(1,2,6) assms(2)] obtain im' where
    fr: "open_image L p im = Some (fst (spec_open L v cs c), im')"
    and rep: "represents L (max k (length p)) im' (snd (spec_open L v cs c))" unfolding p(3) by blast
  from refined_Ret [where f = "open_image L p" and g = Status,
      OF im(1,2) fr open_image.keeps_mount [OF fr] rep] p(4,5)
  show ?thesis by (simp add: adffs_open_def split_beta)
qed

lemma write_refined:
  assumes "nav_ok L" "fs_represents L blk k st v" "covered (Write p b n off)"
    and "cwd_bound k (Write p b n off) < ADFIMAGE_MAX_PATH"
  shows "refined L blk (cwd_bound k (Write p b n off)) (adffs_oper L env (Write p b n off) st)
    (spec_oper L env blk (Write p b n off) v)"
proof -
  let ?f = "adfimage_write L p b n off"
  from assms(3) have can: "canonical p" "p \<noteq> ''/''" by simp_all
  from canonical_bounds [OF can refl, of k] obtain cs c where
    p: "names cs" "is_name c" "p = abspath (cs @ [c])" "butlast (components p) = cs" "last (components p) = c"
    "length (abspath cs) \<le> max k (length p)" "k \<le> max k (length p)" .
  from assms(2) obtain im where
    im: "image st = Some im" "fstat_blksize im = blk" "represents L k im v" by (rule fs_representsE)
  have lt: "max k (length p) < ADFIMAGE_MAX_PATH" using assms(4) by simp
  note w = write_refines [OF assms(1) represents_mono [OF im(3) p(7)] lt p(1,2,6), of b n off]
  show ?thesis
  proof (cases "spec_write L b n off v cs c")
    case None
    with w p(3) have "?f im = None" by simp
    from refined_UB [where f = ?f and g = Status, OF im(1) this] None p(4,5)
    show ?thesis by (simp add: adffs_write_def)
  next
    case (Some r)
    with w p(3) obtain im' where fr: "?f im = Some (fst r, im')"
      and rep: "represents L (max k (length p)) im' (snd r)" by (auto split: prod.split_asm)
    from refined_Ret [where f = ?f and g = Status, OF im(1,2) fr adfimage_write.keeps_mount [OF fr] rep] Some p(4,5)
    show ?thesis by (simp add: adffs_write_def split_beta)
  qed
qed

text \<open>Reading a file and reading a link fill a buffer.\<close>

lemma buffer_refined:
  assumes "fs_represents L blk k st v" "k \<le> n"
    and "\<And>im. represents L n im v \<Longrightarrow> case spec of
        None \<Rightarrow> f im = None
      | Some ((r, buf'), v') \<Rightarrow> \<exists>im'. f im = Some (r, buf', im') \<and> represents L n im' v'"
    and "\<And>im r buf' im'. f im = Some (r, buf', im') \<Longrightarrow> same_mount im im'"
  shows "refined L blk n
    (reply_with (\<lambda>(r, b). BufferReply r b) (on_image (\<lambda>im. map_option (\<lambda>(r, b, im'). ((r, b), im')) (f im)) st))
    (map_option (\<lambda>((r, b), v'). (BufferReply r b, v')) spec)"
proof -
  let ?f = "\<lambda>im. map_option (\<lambda>(r, b, im'). ((r, b), im')) (f im)"
  from assms(1) obtain im where
    im: "image st = Some im" "fstat_blksize im = blk" "represents L k im v" by (rule fs_representsE)
  note w = assms(3) [OF represents_mono [OF im(3) assms(2)]]
  show ?thesis
  proof (cases spec)
    case None
    with w have "?f im = None" by simp
    from refined_UB [where f = ?f and g = "\<lambda>(r, b). BufferReply r b", OF im(1) this] None show ?thesis by simp
  next
    case (Some x)
    obtain r b v' where x: "x = ((r, b), v')" by (metis prod.collapse)
    with w Some obtain im' where run: "f im = Some (r, b, im')" and rep: "represents L n im' v'" by auto
    then have fr: "?f im = Some ((r, b), im')" by simp
    from refined_Ret [where f = ?f and g = "\<lambda>(r, b). BufferReply r b", OF im(1,2) fr assms(4) [OF run] rep] Some x
    show ?thesis by simp
  qed
qed

lemma read_refined:
  assumes "nav_ok L" "fs_represents L blk k st v" "covered (Read p b n off)"
    and "cwd_bound k (Read p b n off) < ADFIMAGE_MAX_PATH"
  shows "refined L blk (cwd_bound k (Read p b n off)) (adffs_oper L env (Read p b n off) st)
    (spec_oper L env blk (Read p b n off) v)"
proof -
  from assms(3) have can: "canonical p" "p \<noteq> ''/''" by simp_all
  from canonical_bounds [OF can refl, of k] obtain cs c where
    p: "names cs" "is_name c" "p = abspath (cs @ [c])" "butlast (components p) = cs" "last (components p) = c"
    "length (abspath cs) \<le> max k (length p)" "k \<le> max k (length p)" .
  have lt: "max k (length p) < ADFIMAGE_MAX_PATH" using assms(4) by simp
  let ?f = "adfimage_read L p b n off" and ?spec = "spec_read L b n off v cs c"
  have "refined L blk (max k (length p))
    (reply_with (\<lambda>(r, b). BufferReply r b) (on_image (\<lambda>im. map_option (\<lambda>(r, b, im'). ((r, b), im')) (?f im)) st))
    (map_option (\<lambda>((r, b), v'). (BufferReply r b, v')) ?spec)"
  proof (rule buffer_refined [OF assms(2) p(7)])
    fix im
    assume "represents L (max k (length p)) im v"
    from read_refines [OF assms(1) this lt p(1,2,6), of b n off]
    show "case ?spec of None \<Rightarrow> ?f im = None
      | Some ((r, buf'), v') \<Rightarrow> \<exists>im'. ?f im = Some (r, buf', im') \<and> represents L (max k (length p)) im' v'"
      unfolding p(3) .
  qed (rule adfimage_read_same_mount)
  then show ?thesis by (simp add: adffs_read_def p(4,5))
qed

lemma readlink_refined:
  assumes "nav_ok L" "fs_represents L blk k st v" "covered (Readlink p b n)"
    and "cwd_bound k (Readlink p b n) < ADFIMAGE_MAX_PATH"
  shows "refined L blk (cwd_bound k (Readlink p b n)) (adffs_oper L env (Readlink p b n) st)
    (spec_oper L env blk (Readlink p b n) v)"
proof -
  from assms(3) have can: "canonical p" "p \<noteq> ''/''" by simp_all
  from canonical_bounds [OF can refl, of k] obtain cs c where
    p: "names cs" "is_name c" "p = abspath (cs @ [c])" "butlast (components p) = cs" "last (components p) = c"
    "length (abspath cs) \<le> max k (length p)" "k \<le> max k (length p)" .
  have lt: "max k (length p) < ADFIMAGE_MAX_PATH" using assms(4) by simp
  let ?f = "adfimage_readlink L p b n" and ?spec = "spec_readlink L b n v cs c"
  have "refined L blk (max k (length p))
    (reply_with (\<lambda>(r, b). BufferReply r b) (on_image (\<lambda>im. map_option (\<lambda>(r, b, im'). ((r, b), im')) (?f im)) st))
    (map_option (\<lambda>((r, b), v'). (BufferReply r b, v')) ?spec)"
  proof (rule buffer_refined [OF assms(2) p(7)])
    fix im
    assume "represents L (max k (length p)) im v"
    from readlink_refines [OF assms(1) this lt p(1,2,6), of b n]
    show "case ?spec of None \<Rightarrow> ?f im = None
      | Some ((r, buf'), v') \<Rightarrow> \<exists>im'. ?f im = Some (r, buf', im') \<and> represents L (max k (length p)) im' v'"
      unfolding p(3) .
  qed (rule adfimage_readlink_same_mount)
  then show ?thesis by (simp add: adffs_readlink_def p(4,5))
qed

lemma nothing_refined:
  assumes "fs_represents L blk k st v"
  shows "refined L blk k (reply_with Status (Some (n, st))) (Some (Status n, v))"
  using assms by (simp add: refined_def reply_with_def returns_def)

lemma truncate_refined:
  assumes "nav_ok L" "cur_free L" "fs_represents L blk k st v" "covered (Truncate p n)"
    and "cwd_bound k (Truncate p n) < ADFIMAGE_MAX_PATH"
  shows "refined L blk (cwd_bound k (Truncate p n)) (adffs_oper L env (Truncate p n) st)
    (spec_oper L env blk (Truncate p n) v)"
proof -
  from assms(4) have can: "canonical p" "p \<noteq> ''/''" by simp_all
  from canonical_bounds [OF can refl, of k] obtain cs c where
    p: "names cs" "is_name c" "p = abspath (cs @ [c])" "butlast (components p) = cs" "last (components p) = c"
    "length (abspath cs) \<le> max k (length p)" "k \<le> max k (length p)" .
  from assms(3) obtain im where
    im: "image st = Some im" "fstat_blksize im = blk" "represents L k im v" by (rule fs_representsE)
  have lt: "max k (length p) < ADFIMAGE_MAX_PATH" using assms(5) by simp
  from truncate_refines [OF assms(1,2) represents_mono [OF im(3) p(7)] lt p(1,2,6), of n] obtain r im' where
    run: "adfimage_file_truncate L p n im = Some (r, im')"
      "fst (spec_truncate L n v cs c) = (if r = 0 then 0 else - 1)"
      "represents L (max k (length p)) im' (snd (spec_truncate L n v cs c))" unfolding p(3) by blast
  with adfimage_file_truncate.keeps_mount [OF run(1)] im(1,2) p(4,5) show ?thesis
    by (auto simp: refined_def adffs_truncate_def reply_with_def returns_def on_image_def adffs_get_state_def
        fs_represents_def same_mount_def split_beta)
qed

lemma chmod_refined:
  assumes "nav_ok L" "cur_free L" "fs_represents L blk k st v" "covered (Chmod p m)"
    and "cwd_bound k (Chmod p m) < ADFIMAGE_MAX_PATH"
  shows "refined L blk (cwd_bound k (Chmod p m)) (adffs_oper L env (Chmod p m) st) (spec_oper L env blk (Chmod p m) v)"
proof -
  let ?p = "components p" and ?n = "max k (length p)"
  have p: "names ?p" "abspath ?p = p" using assms(4) by (simp_all add: canonical_def list_all_iff)
  from assms(3) obtain im where
    im: "image st = Some im" "fstat_blksize im = blk" "represents L k im v" by (rule fs_representsE)
  have rep: "represents L ?n im v" by (rule represents_mono [OF im(3)]) simp
  have "?n < ADFIMAGE_MAX_PATH" "length (abspath ?p) \<le> ?n" using assms(5) p(2) by simp_all
  from setperm_refines [OF assms(1,2) rep this(1) p(1) this(2), of "chmod_perms m"] p(2) obtain im' where
    run: "adfimage_setperm L p (chmod_perms m) im = Some (fst (spec_setperm L (chmod_perms m) v ?p), im')"
      "represents L ?n im' (snd (spec_setperm L (chmod_perms m) v ?p))" by auto
  with adfimage_setperm.keeps_mount [OF run(1)] im(1,2) show ?thesis
    by (auto simp: refined_def adffs_chmod_def reply_with_def returns_def on_image_def adffs_get_state_def
        fs_represents_def same_mount_def split_beta)
qed

lemma rename_refined:
  assumes "nav_ok L" "cur_free L" "fs_represents L blk k st v" "covered (Rename p q)"
    and "cwd_bound k (Rename p q) < ADFIMAGE_MAX_PATH" "\<not> hangs (Rename p q)"
  shows "refined L blk (cwd_bound k (Rename p q)) (adffs_oper L env (Rename p q) st)
    (spec_oper L env blk (Rename p q) v)"
proof -
  let ?n = "max k (max (length p) (length q))"
  from assms(4) have can: "canonical p" "p \<noteq> ''/''" "canonical q" "q \<noteq> ''/''" by simp_all
  from canonical_bounds [OF can(1,2) refl, of k] obtain cs c where
    p: "names cs" "is_name c" "p = abspath (cs @ [c])" "butlast (components p) = cs" "last (components p) = c"
    "length (abspath cs) \<le> max k (length p)" .
  from canonical_bounds [OF can(3,4) refl, of k] obtain ds d where
    q: "names ds" "is_name d" "q = abspath (ds @ [d])" "butlast (components q) = ds" "last (components q) = d"
    "length (abspath ds) \<le> max k (length q)" .
  from assms(3) obtain im where
    im: "image st = Some im" "fstat_blksize im = blk" "represents L k im v" by (rule fs_representsE)
  have rep: "represents L ?n im v" by (rule represents_mono [OF im(3)]) simp
  have bounds: "?n < ADFIMAGE_MAX_PATH" "length (abspath cs) \<le> ?n" "length (abspath ds) \<le> ?n"
    using assms(5) p(6) q(6) by auto
  have "\<not> dotted cs" "\<not> dotted ds" using assms(6) p(4) q(4) by simp_all
  from rename_refines [OF assms(1,2) rep bounds(1) p(1,2) q(1,2) bounds(2,3) this] obtain im' where
    run: "adfimage_file_rename L p q im = Some (Ret (fst (spec_rename L v cs c ds d), im'))"
      "represents L ?n im' (snd (spec_rename L v cs c ds d))" unfolding p(3) q(3) by blast
  with adfimage_file_rename_same_mount [OF run(1)] im(1,2) p(4,5) q(4,5) show ?thesis
    by (auto simp: refined_def adffs_rename_def adffs_get_state_def fs_represents_def same_mount_def split_beta)
qed

lemma rename_hangs:
  assumes "fs_represents L blk k st v" "covered (Rename p q)" "hangs (Rename p q)"
  shows "adffs_oper L env (Rename p q) st = None"
proof -
  from assms(2) have can: "canonical p" "p \<noteq> ''/''" "canonical q" "q \<noteq> ''/''" by simp_all
  from canonical_entryE [OF can(1,2)] obtain cs c where
    p: "names cs" "is_name c" "p = abspath (cs @ [c])" "butlast (components p) = cs" .
  from canonical_entryE [OF can(3,4)] obtain ds d where
    q: "names ds" "is_name d" "q = abspath (ds @ [d])" "butlast (components q) = ds" .
  from assms(1) obtain im where im: "image st = Some im" "heap im = []"
    by (auto simp: fs_represents_def represents_def)
  have "dotted cs \<or> dotted ds" using assms(3) p(4) q(4) by simp
  then have "adfimage_file_rename L p q im = None"
    using rename_canonical [OF p(1,2) q(1,2) im(2), of L] p(3) q(3) by simp
  with im(1) show ?thesis by (simp add: adffs_rename_def adffs_get_state_def)
qed

lemma statfs_refined:
  assumes "nav_ok L" "cur_free L" "fs_represents L blk k st v"
  shows "refined L blk k (adffs_oper L env (Statfs p) st) (spec_oper L env blk (Statfs p) v)"
proof -
  from assms(3) obtain im where im: "image st = Some im" "represents L k im v" by (rule fs_representsE)
  from represents_same [OF assms(1) im(2)] obtain u where u: "vol im = Some u" "same_volume v u" .
  then have "datablockSize u = datablockSize v" "lastBlock u = lastBlock v" "firstBlock u = firstBlock v"
    "vol_readOnly u = vol_readOnly v"
    by (cases v; cases u; simp add: same_volume_def)+
  with u ignores_curD [OF cur_freeD(4) [OF assms(2)] u(2)] im(1) assms(3) show ?thesis
    by (simp add: refined_def adffs_statfs_def adffs_get_state_def reply_with_def returns_def Let_def)
qed

lemma oper_refined:
  assumes "nav_ok L" "cur_free L" "fs_represents L blk k st v" "covered r" "cwd_bound k r < ADFIMAGE_MAX_PATH"
    and "\<not> hangs r"
  shows "refined L blk (cwd_bound k r) (adffs_oper L env r st) (spec_oper L env blk r v)"
proof (cases r)
  case (Unlink p)
  with assms remove_refined [OF assms(1,3), of p env] show ?thesis
    by (simp add: adffs_unlink_def adfimage_unlink_def [abs_def])
next
  case (Rmdir p)
  with assms remove_refined [OF assms(1,3), of p env] show ?thesis
    by (simp add: adffs_rmdir_def adfimage_rmdir_def [abs_def] Let_def)
next
  case (Chown p u g)
  with nothing_refined [OF assms(3), of 0] show ?thesis by (simp add: adffs_chown_def Let_def)
next
  case (Utimens p tv)
  with nothing_refined [OF assms(3), of 0] show ?thesis by (simp add: adffs_utimens_def Let_def)
next
  case (Getattr p)
  with getattr_refined [OF assms(1,3)] assms(4,5) show ?thesis by blast
next
  case (Readlink p b n)
  with readlink_refined [OF assms(1,3)] assms(4,5) show ?thesis by blast
next
  case (Mkdir p m)
  with mkdir_refined [OF assms(1,3)] assms(4,5) show ?thesis by blast
next
  case (Create p m)
  with create_refined [OF assms(1,3)] assms(4,5) show ?thesis by blast
next
  case (Open p)
  with open_refined [OF assms(1) cur_freeD(1) [OF assms(2)] assms(3)] assms(4,5) show ?thesis by blast
next
  case (Truncate p n)
  with truncate_refined [OF assms(1-3)] assms(4,5) show ?thesis by blast
next
  case (Chmod p m)
  with chmod_refined [OF assms(1-3)] assms(4,5) show ?thesis by blast
next
  case (Rename p q)
  with rename_refined [OF assms(1-3)] assms(4-6) show ?thesis by blast
next
  case (Statfs p)
  with statfs_refined [OF assms(1-3)] show ?thesis by simp
next
  case (Read p b n off)
  with read_refined [OF assms(1,3)] assms(4,5) show ?thesis by blast
next
  case (Write p b n off)
  with write_refined [OF assms(1,3)] assms(4,5) show ?thesis by blast
next
  case (Readdir p n)
  with readdir_refined [OF assms(1,3)] assms(4,5) show ?thesis by blast
qed

subsection \<open>Properties of the handlers\<close>

text \<open>
  C33: Every operation of the table that returns keeps the mount: the same image file, device
  and block size, a volume if there was one, and the same mount point.
\<close>

theorem handlers_keep_mount:
  assumes "adffs_oper L env r st = Some (Ret (out, st'))"
  shows "mountpoint st' = mountpoint st \<and> (image st' = None \<longleftrightarrow> image st = None) \<and>
    (\<forall>im im'. image st = Some im \<and> image st' = Some im' \<longrightarrow>
      filename im' = filename im \<and> dev im' = dev im \<and> fstat_blksize im' = fstat_blksize im \<and>
      (vol im' = None \<longleftrightarrow> vol im = None))"
  using adffs_oper_same_fs [OF assms] by (auto simp: same_fs_def same_mount_def split: option.split_asm)

text \<open>
  C25: Listing a canonical directory gives \<open>.\<close>, \<open>..\<close> and the names of its entries in ADFlib's
  order, cut where the caller's buffer of \<open>n\<close> names is full. The result is \<open>-EAGAIN\<close> exactly
  when an entry did not fit; a buffer too small for the first two names is not noticed in an
  empty directory.
\<close>

theorem readdir_lists:
  assumes "nav_ok L" "fs_represents L blk k st v" "names cs" "length (abspath cs) < ADFIMAGE_MAX_PATH"
    and "walk_to L v cs = (True, w, e)" "es = adfGetDirEnt L w (curDirPtr w)"
  shows "\<exists>st'. adffs_readdir L (abspath cs) (list_filler n) [] st =
    Some ((if es \<noteq> [] \<and> n < length es + 2 then - EAGAIN else 0,
           take n (''.'' # ''..'' # map e_name es)), st')"
proof -
  have fill: "length listed \<le> n \<Longrightarrow> fill_entries (list_filler n) es listed =
      (es \<noteq> [] \<and> n < length listed + length es, take n (listed @ map e_name es))" for listed es
  proof (induction es arbitrary: listed)
    case (Cons a es)
    show ?case
    proof (cases "length listed < n")
      case True
      with Cons.IH [of "listed @ [e_name a]"] show ?thesis by (auto simp: list_filler_def)
    qed (use Cons.prems in \<open>simp add: list_filler_def\<close>)
  qed simp
  have two: "snd (list_filler n ''..'' (snd (list_filler n ''.'' []))) = take n [''.'', ''..'']"
    by (auto simp: list_filler_def take_Cons' split: if_splits)
  from assms(2) obtain im where im: "image st = Some im" "represents L k im v" by (rule fs_representsE)
  from readdir_refines [OF assms(1) im(2) assms(4,3) order_refl, of "list_filler n" "[]"] obtain im' where
    "readdir_image L (abspath cs) (list_filler n) [] im = Some (fst (spec_readdir L (list_filler n) [] v cs), im')"
    by auto
  moreover have "fst (spec_readdir L (list_filler n) [] v cs) =
      (if es \<noteq> [] \<and> n < length es + 2 then - EAGAIN else 0, take n (''.'' # ''..'' # map e_name es))"
  proof -
    have flag: "(es \<noteq> [] \<and> n < length (take n [''.'', ''..'']) + length es) = (es \<noteq> [] \<and> n < length es + 2)"
      by (cases es) (auto simp: min_def)
    have cut: "take n (take n [''.'', ''..''] @ xs) = take n (''.'' # ''..'' # xs)" for xs
      by (auto simp: take_Cons')
    have "fill_entries (list_filler n) es (take n [''.'', ''..'']) =
        (es \<noteq> [] \<and> n < length es + 2, take n (''.'' # ''..'' # map e_name es))"
    proof -
      have "length (take n [''.'', ''..'']) \<le> n" by simp
      from fill [OF this, of es] show ?thesis unfolding flag cut by simp
    qed
    then show ?thesis using assms(5,6) by (simp add: spec_readdir_def two)
  qed
  ultimately show ?thesis using im(1) by (simp add: adffs_readdir_def on_image_def adffs_get_state_def)
qed

text \<open>
  C34: \<open>getattr\<close> of a canonical path whose directory exists but has no entry of that name, or
  whose directory does not exist, gives \<open>-ENOENT\<close> and a structure of zeros.
\<close>

theorem getattr_missing:
  assumes "nav_ok L" "fs_represents L blk k st v" "names cs" "is_name c"
    and "length (abspath (cs @ [c])) < ADFIMAGE_MAX_PATH" "walk_to L v cs = (b, w, e)"
    and "b \<longrightarrow> c \<notin> e_name ` set (adfGetDirEnt L w (curDirPtr w))"
  shows "\<exists>st'. adffs_getattr L env (abspath (cs @ [c])) st = Some ((- ENOENT, zero_stat), st')"
proof -
  have p: "components (abspath (cs @ [c])) = cs @ [c]" using assms(3,4) by (intro components_abspath) simp
  have "covered (Getattr (abspath (cs @ [c])))"
    using assms(3,4) canonicalI [of "cs @ [c]"] by simp
  from getattr_refined [OF assms(1,2) this, of env] assms(5)
  have "refined L blk (length (abspath (cs @ [c]))) (adffs_oper L env (Getattr (abspath (cs @ [c]))) st)
      (spec_oper L env blk (Getattr (abspath (cs @ [c]))) v)" by simp
  moreover have "fst (spec_getattr L env blk v cs c) = (- ENOENT, zero_stat)"
    using assms(6,7) by (auto simp: spec_getattr_def lookup_entry_def adflib_list_find_None [THEN iffD2] no_dentry_def Let_def)
  ultimately show ?thesis
    by (auto simp: refined_def p split_beta reply_with_Ret)
qed

text \<open>
  C40: After a read of a missing file in an existing directory, \<open>getattr\<close> of the root reports as
  the root's size the number of entries of that directory.
\<close>

theorem root_size_after_failed_read:
  assumes "files_ok L content" "image st = Some im" "heap im = []" "vol im = Some v"
    and "names cs" "is_name c" "adf_walk L (adfToRootDir L v) cs = (True, w, cs)"
    and "length (abspath cs) < ADFIMAGE_MAX_PATH" "content w (curDirPtr w) c = None"
    and "adffs_read L (abspath (cs @ [c])) buffer sz offset st = Some (r, st')"
    and "adffs_getattr L env ''/'' st' = Some ((n, sb), st'')"
  shows "fst r = - ENOENT \<and> n = 0 \<and> st_size sb = int (length (adfGetDirEnt L w (curDirPtr w)))"
proof -
  have "adffs_read L (abspath (cs @ [c])) buffer sz offset st =
      Some ((- ENOENT, buffer), st\<lparr>image := Some (im\<lparr>vol := Some w, cwd := abspath cs\<rparr>)\<rparr>)"
    using read_missing [OF assms(1,3-7) assms(8)] assms(2,9)
    by (simp add: adffs_read_def on_image_def adffs_get_state_def)
  with assms(10) have "r = (- ENOENT, buffer)" "image st' = Some (im\<lparr>vol := Some w, cwd := abspath cs\<rparr>)"
    by auto
  with assms(11) show ?thesis
    by (auto simp: adffs_getattr_def on_image_def adffs_get_state_def getattr_image_def pathstr_get_relative_def
        bind_Some_iff adfimage_count_cwd_entries_def adflist_count_entries_length finish_stat_def Let_def)
qed

text \<open>
  \<open>chmod\<close> reports a failure to set the permissions by the positive number \<open>EINVAL\<close>, which is
  neither 0 nor the negative error FUSE expects; success is 0.
\<close>

lemma chmod_status:
  assumes "adffs_chmod L path mode st = Some (n, st')"
  shows "\<exists>im ok im'. image st = Some im \<and> adfimage_setperm L path (chmod_perms mode) im = Some (ok, im') \<and>
    image st' = Some im' \<and> n = (if ok then 0 else 22)"
  using assms
  by (auto simp: adffs_chmod_def on_image_def adffs_get_state_def bind_pair_Some_iff bind_Some_iff errno_defs)

subsection \<open>The structure \<open>getattr\<close> fills\<close>

definition S_IFMT :: "32 word" where "S_IFMT = 0xF000"

text \<open>What is neither a file type nor one of the permissions \<open>0755\<close>.\<close>

definition other_mode_bits :: "32 word" where "other_mode_bits = not (or S_IFMT 0x1ED)"

definition stat_well_formed :: "stat \<Rightarrow> bool" where
  "stat_well_formed sb \<longleftrightarrow>
     and (st_mode sb) S_IFMT \<in> {S_IFDIR, S_IFREG, S_IFLNK, 0} \<and>
     and (st_mode sb) other_mode_bits = 0 \<and>
     (and (st_mode sb) S_IFMT = 0 \<longrightarrow> st_mode sb = 0) \<and>
     st_nlink sb \<in> {0, 1} \<and> 0 \<le> st_size sb \<and>
     (st_blocks sb = 0 \<or> and (st_mode sb) S_IFMT = S_IFREG \<and> st_blocks sb = st_size sb div 512 + 1)"

lemma mode_bits [simp]:
  "and (file_mode p) S_IFMT = S_IFREG" "and (file_mode p) other_mode_bits = 0"
  "and (dir_mode p) S_IFMT = S_IFDIR" "and (dir_mode p) other_mode_bits = 0"
  "and root_mode S_IFMT = S_IFDIR" "and root_mode other_mode_bits = 0"
  "and softlink_mode S_IFMT = S_IFLNK" "and softlink_mode other_mode_bits = 0"
  by (simp_all add: file_mode_def dir_mode_def root_mode_def softlink_mode_def when_bit_def mode_defs
      S_IFMT_def other_mode_bits_def)

lemma zero_stat_well_formed: "stat_well_formed zero_stat"
  by (simp add: stat_well_formed_def zero_stat_def)

lemma count_nonneg:
  "adfimage_count_cwd_entries L im = Some n \<Longrightarrow> 0 \<le> n"
  "adfimage_count_dir_entries L p im = Some (n, im') \<Longrightarrow> 0 \<le> n"
  by (auto simp: adfimage_count_cwd_entries_def adfimage_count_dir_entries_def adflist_count_entries_length
      bind_Some_iff split: if_split_asm prod.split_asm)

lemma finish_stat_well_formed [simp]: "stat_well_formed (finish_stat env d b sb) = stat_well_formed sb"
  by (simp add: stat_well_formed_def finish_stat_def Let_def)

lemma root_well_formed: "0 \<le> k \<Longrightarrow> stat_well_formed (zero_stat\<lparr>st_mode := root_mode, st_size := k, st_nlink := 1\<rparr>)"
  by (simp add: stat_well_formed_def zero_stat_def S_IFDIR_def)

lemma file_well_formed:
  "stat_well_formed (zero_stat\<lparr>st_mode := file_mode p, st_nlink := 1\<rparr>)"
  "0 \<le> k \<Longrightarrow> stat_well_formed (zero_stat\<lparr>st_mode := file_mode p, st_nlink := 1, st_size := k, st_blocks := k div 512 + 1\<rparr>)"
  by (simp_all add: stat_well_formed_def zero_stat_def S_IFREG_def)

lemma dir_well_formed:
  "0 \<le> k \<Longrightarrow> stat_well_formed (zero_stat\<lparr>st_mode := dir_mode p, st_size := k, st_nlink := 1\<rparr>)"
  by (simp add: stat_well_formed_def zero_stat_def S_IFDIR_def)

lemma softlink_well_formed: "stat_well_formed (zero_stat\<lparr>st_mode := softlink_mode, st_nlink := 1\<rparr>)"
  by (simp add: stat_well_formed_def zero_stat_def S_IFLNK_def)

lemma stat_file_result:
  assumes "stat_file L name sb im = Some (sb', im')"
  shows "sb' = sb \<or> (\<exists>k \<ge> 0. sb' = sb\<lparr>st_size := k, st_blocks := k div 512 + 1\<rparr>)"
proof -
  from assms obtain v where v: "vol im = Some v" by (auto simp: stat_file_def bind_Some_iff)
  obtain afile v1 where o': "adfFileOpen L v name ADF_FILE_MODE_READ = (afile, v1)" by fastforce
  have *: "sb' = (case afile of None \<Rightarrow> sb | Some f \<Rightarrow>
      sb\<lparr>st_size := uint (fileHdr_byteSize L f), st_blocks := uint (fileHdr_byteSize L f) div 512 + 1\<rparr>)"
    using assms v o' by (simp add: stat_file_def)
  show ?thesis
  proof (cases afile)
    case (Some f)
    with * show ?thesis by (intro disjI2 exI [of _ "uint (fileHdr_byteSize L f)"]) simp
  qed (use * in simp)
qed

lemma stat_dentry_well_formed:
  assumes "stat_dentry L path name d im = Some (Some sb, im')"
  shows "stat_well_formed sb"
proof (cases "dtype d = ADFVOLUME_DENTRY_FILE \<or> dtype d = ADFVOLUME_DENTRY_LINKFILE")
  case True
  with assms obtain im1 where
    "stat_file L name (zero_stat\<lparr>st_mode := file_mode (adfimage_getperm L d), st_nlink := 1\<rparr>) im = Some (sb, im1)"
    by (auto simp: stat_dentry_def bind_pair_Some_iff)
  from stat_file_result [OF this] show ?thesis by (auto simp: file_well_formed)
next
  case False
  with assms show ?thesis
    by (auto simp: stat_dentry_def bind_pair_Some_iff dir_well_formed softlink_well_formed zero_stat_well_formed
        split: if_split_asm dest!: count_nonneg)
qed

text \<open>
  C10: The structure that \<open>getattr\<close> fills is well-formed, whatever the path and the volume: its mode
  has one of the file types directory, regular file and symbolic link, and permissions none of
  which lets anyone but the owner write, or is 0 for an entry of unknown type; there is at most
  one link; the size is not negative, and only files have blocks, counted from the size. The
  status is 0 or \<open>-ENOENT\<close>, and then the structure is all zeros.
\<close>

theorem getattr_well_formed:
  assumes "adffs_getattr L env path st = Some ((n, sb), st')"
  shows "stat_well_formed sb \<and> (n = 0 \<or> n = - ENOENT \<and> sb = zero_stat)"
proof -
  from assms obtain im im' where *: "getattr_image L env path im = Some ((n, sb), im')"
    by (auto simp: adffs_getattr_def on_image_def bind_Some_iff)
  show ?thesis
  proof (cases "pathstr_get_relative path = []")
    case True
    with * show ?thesis
      by (auto simp: getattr_image_def bind_Some_iff root_well_formed dest!: count_nonneg)
  next
    case False
    with * obtain r where e: "getattr_entry L path im = Some (r, im')"
      and r: "(n, sb) = (case r of None \<Rightarrow> (- ENOENT, zero_stat)
        | Some (d, sb') \<Rightarrow> (0, finish_stat env d (fstat_blksize im) sb'))"
      by (auto simp: getattr_image_def bind_Some_iff)
    from e have "stat_well_formed sb'" if "r = Some (d, sb')" for d sb'
      using that stat_dentry_well_formed
      by (auto simp: getattr_entry_def bind_Some_iff Let_def split: if_split_asm prod.split_asm)
    with r zero_stat_well_formed show ?thesis by (auto split: option.split_asm)
  qed
qed

end
