(* ===== verification/Adffs_Runs.thy ===== *)
theory Adffs_Runs
  imports Adffs_Refine
begin

section \<open>Sequences of requests\<close>

text \<open>
  What the handlers do one after the other: a run of the handlers is simulated by a run of the
  specification, and what is acquired by opening the image is released by \<open>adffs_destroy\<close>
  whatever was requested in between.
\<close>

subsection \<open>Simulation\<close>

text \<open>
  \<open>simulation\<close>: a machine that answers requests on a concrete state, a specification on an
  abstract one, and a relation between them that carries a bound; a step refines as long as
  the bound stays below the limit. The lemma of the locale is the refinement of runs.
\<close>

fun runs :: "('r \<Rightarrow> 's \<Rightarrow> ('o \<times> 's) cres option) \<Rightarrow> 'r list \<Rightarrow> 's \<Rightarrow> ('o list \<times> 's) cres option" where
  "runs step [] s = Some (Ret ([], s))"
| "runs step (r # rs) s =
     (case step r s of
        None \<Rightarrow> None
      | Some UB \<Rightarrow> Some UB
      | Some (Ret (out, s')) \<Rightarrow>
          (case runs step rs s' of
             None \<Rightarrow> None
           | Some UB \<Rightarrow> Some UB
           | Some (Ret (outs, s'')) \<Rightarrow> Some (Ret (out # outs, s''))))"

fun stays_below :: "nat \<Rightarrow> (nat \<Rightarrow> 'r \<Rightarrow> nat) \<Rightarrow> nat \<Rightarrow> 'r list \<Rightarrow> bool" where
  "stays_below limit bound k [] = (k < limit)"
| "stays_below limit bound k (r # rs) = (bound k r < limit \<and> stays_below limit bound (bound k r) rs)"

locale simulation =
  fixes step :: "'r \<Rightarrow> 's \<Rightarrow> ('o \<times> 's) cres option"
    and spec :: "'r \<Rightarrow> 'a \<Rightarrow> ('o \<times> 'a) cres option"
    and rel :: "nat \<Rightarrow> 's \<Rightarrow> 'a \<Rightarrow> bool"
    and ok :: "'r \<Rightarrow> bool"
    and bound :: "nat \<Rightarrow> 'r \<Rightarrow> nat"
    and limit :: nat
  assumes step_None: "rel k s a \<Longrightarrow> ok r \<Longrightarrow> bound k r < limit \<Longrightarrow> spec r a = None \<Longrightarrow> step r s = None"
    and step_UB: "rel k s a \<Longrightarrow> ok r \<Longrightarrow> bound k r < limit \<Longrightarrow> spec r a = Some UB \<Longrightarrow> step r s = Some UB"
    and step_Ret: "rel k s a \<Longrightarrow> ok r \<Longrightarrow> bound k r < limit \<Longrightarrow> spec r a = Some (Ret (out, a')) \<Longrightarrow>
      \<exists>s'. step r s = Some (Ret (out, s')) \<and> rel (bound k r) s' a'"
begin

lemma runs_refine:
  assumes "rel k s a" "list_all ok rs" "stays_below limit bound k rs"
  shows "case runs spec rs a of
      None \<Rightarrow> runs step rs s = None
    | Some UB \<Rightarrow> runs step rs s = Some UB
    | Some (Ret (outs, a')) \<Rightarrow> \<exists>k' s'. runs step rs s = Some (Ret (outs, s')) \<and> rel k' s' a' \<and> k' < limit"
  using assms
proof (induction rs arbitrary: k s a)
  case Nil
  then show ?case by auto
next
  case (Cons r rs)
  from Cons.prems have r: "ok r" "bound k r < limit" "list_all ok rs" "stays_below limit bound (bound k r) rs"
    by simp_all
  note sim = step_None [OF Cons.prems(1) r(1,2)] step_UB [OF Cons.prems(1) r(1,2)]
  show ?case
  proof (cases "\<exists>out a'. spec r a = Some (Ret (out, a'))")
    case False
    with sim show ?thesis by (auto split: option.split cres.split)
  next
    case True
    then obtain out a' where out: "spec r a = Some (Ret (out, a'))" by blast
    with step_Ret [OF Cons.prems(1) r(1,2)] obtain s' where
      s': "step r s = Some (Ret (out, s'))" "rel (bound k r) s' a'" by blast
    from Cons.IH [OF s'(2) r(3,4)] s'(1) out show ?thesis
      by (auto split: option.splits cres.splits)
  qed
qed

text \<open>Where the specification answers every request, so does the machine.\<close>

lemma runs_answered:
  assumes "rel k s a" "list_all ok rs" "stays_below limit bound k rs"
    and "\<And>r a. r \<in> set rs \<Longrightarrow> \<exists>out a'. spec r a = Some (Ret (out, a'))"
  shows "\<exists>outs s' k' a'. runs step rs s = Some (Ret (outs, s')) \<and> length outs = length rs \<and> rel k' s' a' \<and> k' < limit"
  using assms
proof (induction rs arbitrary: k s a)
  case (Cons r rs)
  from Cons.prems have r: "ok r" "bound k r < limit" "list_all ok rs" "stays_below limit bound (bound k r) rs"
    by simp_all
  from Cons.prems(4) obtain out a' where "spec r a = Some (Ret (out, a'))" by fastforce
  from step_Ret [OF Cons.prems(1) r(1,2) this] obtain s' where
    s': "step r s = Some (Ret (out, s'))" "rel (bound k r) s' a'" by blast
  from Cons.IH [OF s'(2) r(3,4)] Cons.prems(4) obtain outs s'' k' a'' where
    "runs step rs s' = Some (Ret (outs, s''))" "length outs = length rs" "rel k' s'' a''" "k' < limit" by auto
  with s'(1) show ?case by auto
qed auto

text \<open>Two concrete states that stand for the same abstract one are not told apart.\<close>

lemma same_answers:
  assumes "rel k s a" "rel k' s' a" "list_all ok rs" "stays_below limit bound k rs" "stays_below limit bound k' rs"
    and "runs step rs s = Some (Ret (outs, t))"
  shows "\<exists>t'. runs step rs s' = Some (Ret (outs, t'))"
  using runs_refine [OF assms(1,3,4)] runs_refine [OF assms(2,3,5)] assms(6)
  by (auto split: option.splits cres.splits)

end

interpretation fuse_ops: simulation "adffs_oper L env" "spec_step L env blk" "fs_represents L blk"
    "\<lambda>r. nav_ok L \<and> cur_free L \<and> covered r" cwd_bound ADFIMAGE_MAX_PATH
  for L :: "('d, 'f) adflib" and env blk
proof
  fix k r st and v :: "'d AdfVolume"
  assume *: "fs_represents L blk k st v" "nav_ok L \<and> cur_free L \<and> covered r" "cwd_bound k r < ADFIMAGE_MAX_PATH"
  then have ref: "refined L blk (cwd_bound k r) (adffs_oper L env r st) (spec_oper L env blk r v)" if "\<not> hangs r"
    using that by (auto intro: oper_refined)
  show "adffs_oper L env r st = None" if "spec_step L env blk r v = None"
  proof -
    from that have "hangs r" by (simp add: spec_step_def split: if_split_asm)
    then obtain p q where "r = Rename p q" by (cases r) auto
    with rename_hangs [OF *(1)] *(2) \<open>hangs r\<close> show ?thesis by simp
  qed
  show "adffs_oper L env r st = Some UB" if "spec_step L env blk r v = Some UB"
    using that ref by (auto simp: spec_step_def refined_def split: if_split_asm option.split_asm)
  show "\<exists>st'. adffs_oper L env r st = Some (Ret (out, st')) \<and> fs_represents L blk (cwd_bound k r) st' v'"
    if "spec_step L env blk r v = Some (Ret (out, v'))" for out v'
    using that ref by (auto simp: spec_step_def refined_def split: if_split_asm option.split_asm)
qed

subsection \<open>With the look-up of the root\<close>

text \<open>
  \<open>getattr\<close> of the root answers with the number of entries of the current directory as the size, so
  that part of its reply is no function of the volume. \<open>seen_oper\<close> is the handler table with this
  size struck out of its replies; on the requests that are \<open>served\<close>, the look-up of the root now
  among them, it is a simulation too.
\<close>

definition served :: "request \<Rightarrow> bool" where
  "served r \<longleftrightarrow> covered r \<or> r = Getattr ''/''"

fun seen :: "request \<Rightarrow> reply \<Rightarrow> reply" where
  "seen (Getattr p) (StatReply n sb) = StatReply n (if p = ''/'' then sb\<lparr>st_size := 0\<rparr> else sb)"
| "seen r out = out"

lemma seen_other: "r \<noteq> Getattr ''/'' \<Longrightarrow> seen r out = out"
  by (cases "(r, out)" rule: seen.cases) auto

definition seen_oper ::
  "('d, 'f) adflib \<Rightarrow> fuse_env \<Rightarrow> request \<Rightarrow> 'd adffs_state \<Rightarrow> (reply \<times> 'd adffs_state) cres option" where
  "seen_oper L env r st =
     (case adffs_oper L env r st of
        None \<Rightarrow> None
      | Some UB \<Rightarrow> Some UB
      | Some (Ret (out, st')) \<Rightarrow> Some (Ret (seen r out, st')))"

definition spec_seen ::
  "('d, 'f) adflib \<Rightarrow> fuse_env \<Rightarrow> int \<Rightarrow> request \<Rightarrow> 'd AdfVolume \<Rightarrow> (reply \<times> 'd AdfVolume) cres option" where
  "spec_seen L env blksize r v =
     (if r = Getattr ''/''
      then Some (Ret (StatReply 0 (finish_stat env (spec_root L v) blksize
                        (zero_stat\<lparr>st_mode := root_mode, st_nlink := 1\<rparr>)), v))
      else spec_step L env blksize r v)"

text \<open>The look-up of the root leaves \<open>cwd\<close> alone.\<close>

definition seen_bound :: "nat \<Rightarrow> request \<Rightarrow> nat" where
  "seen_bound k r = (if r = Getattr ''/'' then k else cwd_bound k r)"

lemma root_looked_up:
  assumes "nav_ok L" "cur_free L" "fs_represents L blk k st v"
  shows "\<exists>n. adffs_oper L env (Getattr ''/'') st = Some (Ret (StatReply 0
    (finish_stat env (spec_root L v) blk (zero_stat\<lparr>st_mode := root_mode, st_size := n, st_nlink := 1\<rparr>)), st))"
proof -
  from assms(3) obtain im where im: "image st = Some im" "fstat_blksize im = blk" "represents L k im v"
    by (rule fs_representsE)
  from im(3) obtain u where u: "vol im = Some u" by (rule representsE)
  have "st\<lparr>image := Some im\<rparr> = st" using im(1) by (cases st) simp
  with im(1,2) u root_dentry_refines [OF assms(1,2) im(3)] show ?thesis
    by (intro exI [of _ "adflist_count_entries (adfGetDirEnt L u (curDirPtr u))"])
      (simp add: adffs_getattr_def on_image_def adffs_get_state_def getattr_image_def pathstr_get_relative_def
        adfimage_count_cwd_entries_def reply_with_def returns_def)
qed

interpretation fuse_seen: simulation "seen_oper L env" "spec_seen L env blk" "fs_represents L blk"
    "\<lambda>r. nav_ok L \<and> cur_free L \<and> served r" seen_bound ADFIMAGE_MAX_PATH
  for L :: "('d, 'f) adflib" and env blk
proof
  fix k r st and v :: "'d AdfVolume"
  assume *: "fs_represents L blk k st v" "nav_ok L \<and> cur_free L \<and> served r" "seen_bound k r < ADFIMAGE_MAX_PATH"
  have other: "nav_ok L \<and> cur_free L \<and> covered r" "cwd_bound k r < ADFIMAGE_MAX_PATH"
    "spec_seen L env blk r v = spec_step L env blk r v" if "r \<noteq> Getattr ''/''"
    using * that by (auto simp: served_def seen_bound_def spec_seen_def)
  note sim = fuse_ops.step_None [OF *(1) other(1,2), of env] fuse_ops.step_UB [OF *(1) other(1,2), of env]
  show "seen_oper L env r st = None" if "spec_seen L env blk r v = None"
  proof -
    from that have r: "r \<noteq> Getattr ''/''" by (auto simp: spec_seen_def)
    with sim(1) that other(3) show ?thesis by (simp add: seen_oper_def)
  qed
  show "seen_oper L env r st = Some UB" if "spec_seen L env blk r v = Some UB"
  proof -
    from that have r: "r \<noteq> Getattr ''/''" by (auto simp: spec_seen_def)
    with sim(2) that other(3) show ?thesis by (simp add: seen_oper_def)
  qed
  show "\<exists>st'. seen_oper L env r st = Some (Ret (out, st')) \<and> fs_represents L blk (seen_bound k r) st' v'"
    if spec: "spec_seen L env blk r v = Some (Ret (out, v'))" for out v'
  proof (cases "r = Getattr ''/''")
    case True
    from root_looked_up [OF _ _ *(1), of env] *(2) obtain n where
      "adffs_oper L env (Getattr ''/'') st = Some (Ret (StatReply 0
        (finish_stat env (spec_root L v) blk (zero_stat\<lparr>st_mode := root_mode, st_size := n, st_nlink := 1\<rparr>)), st))"
      by blast
    with True spec *(1) show ?thesis
      by (auto simp: seen_oper_def spec_seen_def seen_bound_def finish_stat_def zero_stat_def Let_def)
  next
    case False
    with spec other(3) have "spec_step L env blk r v = Some (Ret (out, v'))" by simp
    from fuse_ops.step_Ret [OF *(1) other(1,2) this] False show ?thesis
      by (auto simp: seen_oper_def seen_bound_def seen_other)
  qed
qed

lemma runs_length: "runs step rs s = Some (Ret (outs, t)) \<Longrightarrow> length outs = length rs"
  by (induction rs arbitrary: s outs) (auto split: option.split_asm cres.split_asm prod.split_asm)

text \<open>A run of the one table is a run of the other, up to what is struck out.\<close>

lemma runs_seen:
  "runs (seen_oper L env) rs st =
    (case runs (adffs_oper L env) rs st of
       None \<Rightarrow> None
     | Some UB \<Rightarrow> Some UB
     | Some (Ret (outs, t)) \<Rightarrow> Some (Ret (map2 seen rs outs, t)))"
proof (induction rs arbitrary: st)
  case (Cons r rs)
  show ?case
    by (simp add: seen_oper_def [of L env r st] Cons.IH split: option.split cres.split prod.split)
qed simp

subsection \<open>Requests that are answered\<close>

text \<open>
  A request with room for what it asks for: the code relies on the caller for that, and on ADFlib
  not to read more than it was asked for (\<open>reads_within\<close>).
\<close>

fun sized :: "request \<Rightarrow> bool" where
  "sized (Read p b n off) = (unat (ucast n :: 32 word) \<le> length b)"
| "sized (Write p b n off) = (unat (ucast n :: 32 word) \<le> length b)"
| "sized (Readlink p b n) = (n \<le> length b)"
| "sized r = True"

definition reads_within :: "('d, 'f) adflib \<Rightarrow> bool" where
  "reads_within L \<longleftrightarrow> (\<forall>v f n. length (fst (adfFileRead L v f n)) \<le> unat n)"

lemma seek_and_read_defined:
  assumes "reads_within L" "unat (ucast sz :: 32 word) \<le> length buf"
  shows "seek_and_read L v f sz offset buf \<noteq> None"
proof -
  obtain rc f1 v1 where seek: "adfFileSeek L v f (ucast offset) = (rc, f1, v1)"
    by (cases "adfFileSeek L v f (ucast offset)")
  obtain bs f2 v2 where read: "adfFileRead L v1 f1 (ucast sz) = (bs, f2, v2)"
    by (cases "adfFileRead L v1 f1 (ucast sz)")
  have "length (fst (adfFileRead L v1 f1 (ucast sz))) \<le> length buf"
    using assms unfolding reads_within_def by (meson order_trans)
  with seek read show ?thesis by (simp add: seek_and_read_def store_bytes_def)
qed

lemma seek_and_write_defined:
  "unat (ucast sz :: 32 word) \<le> length buf \<Longrightarrow> seek_and_write L v f sz offset buf \<noteq> None"
  by (simp add: seek_and_write_def Let_def split: prod.split)

lemma link_text_defined: "n \<le> length buf \<Longrightarrow> link_text L v c buf n \<noteq> None"
  by (simp add: link_text_def Let_def split: prod.split)

lemma spec_oper_defined:
  assumes "reads_within L" "sized r"
  shows "spec_oper L env blk r v \<noteq> None"
proof (cases r)
  case (Read p b n off)
  with seek_and_read_defined [OF assms(1), of n b] assms(2) show ?thesis
    by (auto simp: spec_read_def split: prod.split option.split)
next
  case (Write p b n off)
  with seek_and_write_defined [of n b L] assms(2) show ?thesis
    by (auto simp: spec_write_def split: prod.split option.split)
next
  case (Readlink p b n)
  with link_text_defined [of n b L] assms(2) show ?thesis
    by (auto simp: spec_readlink_def split: prod.split)
qed (auto split: prod.split)

lemma spec_step_answers:
  assumes "reads_within L" "sized r" "\<not> hangs r"
  shows "\<exists>out v'. spec_step L env blk r v = Some (Ret (out, v'))"
proof -
  obtain out v' where "spec_oper L env blk r v = Some (out, v')"
    using spec_oper_defined [OF assms(1,2), of env blk v] by fastforce
  with assms(3) show ?thesis by (simp add: spec_step_def)
qed

subsection \<open>Requests as FUSE makes them\<close>

text \<open>
  Before it creates or removes an entry, FUSE looks the path up with \<open>getattr\<close>. That sets \<open>cwd\<close> anew,
  so that it does not grow from one such request to the next.
\<close>

fun changes :: "request \<Rightarrow> bool" where
  "changes (Mkdir p m) = True"
| "changes (Unlink p) = True"
| "changes (Rmdir p) = True"
| "changes (Create p m) = True"
| "changes r = False"

definition with_lookups :: "request list \<Rightarrow> request list" where
  "with_lookups rs = concat (map (\<lambda>r. if changes r then [Getattr (request_path r), r] else [r]) rs)"

text \<open>The paths that fit: half of the buffer of \<open>cwd\<close> for what changes the volume, else all of it.\<close>

fun short :: "request \<Rightarrow> bool" where
  "short (Rename p q) = (length p < ADFIMAGE_MAX_PATH \<and> length q < ADFIMAGE_MAX_PATH)"
| "short r = (if changes r then 2 * length (request_path r) \<le> ADFIMAGE_MAX_PATH
              else length (request_path r) < ADFIMAGE_MAX_PATH)"

lemma with_lookups_simps [simp]:
  "with_lookups [] = []"
  "with_lookups (r # rs) = (if changes r then Getattr (request_path r) # r # with_lookups rs else r # with_lookups rs)"
  by (simp_all add: with_lookups_def)

lemma list_all_with_lookups:
  assumes "list_all P rs" "\<And>r. P r \<Longrightarrow> changes r \<Longrightarrow> P (Getattr (request_path r))"
  shows "list_all P (with_lookups rs)"
  using assms(1) by (induction rs) (auto simp: assms(2))

lemma cwd_bound_unchanged:
  assumes "short r" "\<not> changes r" "k < ADFIMAGE_MAX_PATH"
  shows "cwd_bound k r < ADFIMAGE_MAX_PATH"
  using assms by (cases r) auto

lemma cwd_bound_changed:
  assumes "short r" "changes r" "covered r"
  shows "length (request_path r) < ADFIMAGE_MAX_PATH" "cwd_bound (length (request_path r)) r < ADFIMAGE_MAX_PATH"
proof -
  let ?p = "request_path r"
  have can: "canonical ?p" "?p \<noteq> ''/''" using assms(2,3) by (cases r; simp)+
  from canonical_entryE [OF this] obtain cs c where
    p: "names cs" "is_name c" "?p = abspath (cs @ [c])" "butlast (components ?p) = cs" .
  have half: "2 * length ?p \<le> ADFIMAGE_MAX_PATH" using assms(1,2) by (cases r) auto
  have "length (abspath cs) < length ?p"
    using length_abspath_snoc_less [OF p(2)] p(3) by simp
  moreover have "cwd_bound (length ?p) r = length ?p + length (abspath (butlast (components ?p)))"
    using assms(2) by (cases r) auto
  ultimately show "length ?p < ADFIMAGE_MAX_PATH" "cwd_bound (length ?p) r < ADFIMAGE_MAX_PATH"
    using half p(4) by auto
qed

lemma with_lookups_stays_below:
  assumes "list_all served rs" "list_all short rs" "k < ADFIMAGE_MAX_PATH"
  shows "stays_below ADFIMAGE_MAX_PATH seen_bound k (with_lookups rs)"
  using assms
proof (induction rs arbitrary: k)
  case (Cons r rs)
  show ?case
  proof (cases "changes r")
    case True
    then have "covered r" "request_path r \<noteq> ''/''" "r \<noteq> Getattr ''/''"
      using Cons.prems(1) by (cases r; auto simp: served_def)+
    with True Cons cwd_bound_changed [of r] show ?thesis by (simp add: seen_bound_def)
  next
    case False
    with Cons cwd_bound_unchanged [of r k] show ?thesis by (simp add: seen_bound_def)
  qed
qed simp

text \<open>Such requests, with room for what they ask for, are all answered.\<close>

lemma requests_answered:
  assumes "nav_ok L" "cur_free L" "reads_within L" "fs_represents L blk k st v" "k < ADFIMAGE_MAX_PATH"
    and "list_all (\<lambda>r. served r \<and> sized r \<and> short r \<and> \<not> hangs r) rs"
  shows "\<exists>replies st' k' v'. runs (adffs_oper L env) (with_lookups rs) st = Some (Ret (replies, st')) \<and>
    length replies = length (with_lookups rs) \<and> fs_represents L blk k' st' v' \<and> k' < ADFIMAGE_MAX_PATH"
proof -
  let ?ok = "\<lambda>r. nav_ok L \<and> cur_free L \<and> served r"
  have looked: "served (Getattr (request_path r))" if "served r" "changes r" for r
    using that by (cases r) (auto simp: served_def)
  have all: "list_all (\<lambda>r. ?ok r \<and> sized r \<and> \<not> hangs r) (with_lookups rs)"
    by (rule list_all_with_lookups) (use assms(1,2,6) looked in \<open>auto simp: list_all_iff\<close>)
  then have ok: "list_all ?ok (with_lookups rs)" by (simp add: list_all_iff)
  have below: "stays_below ADFIMAGE_MAX_PATH seen_bound k (with_lookups rs)"
    by (rule with_lookups_stays_below) (use assms(5,6) in \<open>auto simp: list_all_iff\<close>)
  have "\<exists>outs st' k' v'. runs (seen_oper L env) (with_lookups rs) st = Some (Ret (outs, st')) \<and>
      length outs = length (with_lookups rs) \<and> fs_represents L blk k' st' v' \<and> k' < ADFIMAGE_MAX_PATH"
  proof (rule fuse_seen.runs_answered [OF assms(4) ok below])
    fix r and w :: "'a AdfVolume"
    assume "r \<in> set (with_lookups rs)"
    with all have "sized r" "\<not> hangs r" by (auto simp: list_all_iff)
    from spec_step_answers [OF assms(3) this] show "\<exists>out v'. spec_seen L env blk r w = Some (Ret (out, v'))"
      by (simp add: spec_seen_def)
  qed
  then show ?thesis
    by (auto simp: runs_seen split: option.split_asm cres.split_asm prod.split_asm dest: runs_length)
qed

subsection \<open>From opening to \<open>adffs_destroy\<close>\<close>

text \<open>
  After any sequence of requests that all returned, \<open>adffs_destroy\<close> releases, in the order the
  protocol allows, everything that opening the image acquired, and forgets image and mount point.
\<close>

lemma mount_use_destroy:
  assumes "adfimage_open M L f n ro ign h = (Some im, evs)" "image st = Some im"
    and "runs (adffs_oper L env) rs st = Some (Ret (outs, st'))" "adffs_log_close ls = Some ls'"
  shows "\<exists>st'' evs'. adffs_destroy st' ls = Some (st'', ls', evs') \<and>
    image st'' = None \<and> mountpoint st'' = None \<and> res_run nothing (evs @ evs') nothing"
proof -
  have frame: "same_fs st st'" if "runs (adffs_oper L env) rs st = Some (Ret (outs, st'))" for rs st outs
    using that
  proof (induction rs arbitrary: st outs)
    case (Cons r rs)
    then show ?case
      by (auto split: option.split_asm cres.split_asm prod.split_asm intro: same_fs_trans adffs_oper_same_fs)
  qed simp
  from frame [OF assms(3)] assms(2) obtain im' where im': "image st' = Some im'" "same_mount im im'"
    by (auto simp: same_fs_def)
  obtain r evs' where r: "adfimage_close (Some im') = (r, evs')" by fastforce
  with im'(1) assms(4) have "adffs_destroy st' ls = Some (st'\<lparr>image := r, mountpoint := None\<rparr>, ls', evs')"
    by (simp add: adffs_destroy_def)
  with open_use_close [OF assms(1) im'(2) r] show ?thesis by auto
qed

end
