(* ===== verification/Sample_Volume.thy ===== *)
theory Sample_Volume
  imports Adffs_Runs
begin

section \<open>A small volume\<close>

text \<open>
  ADFlib is a parameter of the model. Here it is instantiated by a small file system in
  memory, so that the hypotheses of the properties can be shown to hold together and the
  definitions can be run: directories are association lists from a sector to entries, files
  from a sector and a name to bytes, and entry blocks from a sector to a block. It is an
  example for the witnesses, not a model of ADFlib.
\<close>

record tiny =
  t_dirs :: "(int \<times> AdfEntry list) list"
  t_files :: "((int \<times> string) \<times> char list) list"
  t_blocks :: "(int \<times> AdfBlock) list"

record tiny_file =
  tf_dir :: int
  tf_name :: string
  tf_pos :: nat
  tf_size :: nat

definition tiny_consts :: adf_const where
  "tiny_consts =
     \<lparr>ADF_RC_OK = 0, ADF_ST_ROOT = 1, ADF_ST_DIR = 2, ADF_ST_FILE = - 3, ADF_ST_LFILE = - 4,
      ADF_ST_LDIR = 4, ADF_ST_LSOFT = 3, ADF_ACCMASK_R = 8, ADF_ACCMASK_W = 4, ADF_ACCMASK_E = 2,
      ADF_BM_VALID = - 1\<rparr>"

subsection \<open>Its operations\<close>

definition tiny_content :: "tiny content" where
  "tiny_content v d n = map_of (t_files (volData v)) (d, n)"

definition tiny_list :: "tiny AdfVolume \<Rightarrow> int \<Rightarrow> AdfEntry list" where
  "tiny_list v s = (case map_of (t_dirs (volData v)) s of None \<Rightarrow> [] | Some es \<Rightarrow> es)"

definition tiny_put_file :: "tiny AdfVolume \<Rightarrow> int \<times> string \<Rightarrow> char list \<Rightarrow> tiny AdfVolume" where
  "tiny_put_file v k bs = v\<lparr>volData := (volData v)\<lparr>t_files := (k, bs) # t_files (volData v)\<rparr>\<rparr>"

definition tiny_put_dir :: "tiny AdfVolume \<Rightarrow> int \<Rightarrow> AdfEntry list \<Rightarrow> tiny AdfVolume" where
  "tiny_put_dir v s es = v\<lparr>volData := (volData v)\<lparr>t_dirs := (s, es) # t_dirs (volData v)\<rparr>\<rparr>"

text \<open>A directory, the root or a link to a directory: the type of the last is 4.\<close>

definition tiny_is_dir :: "AdfEntry \<Rightarrow> bool" where
  "tiny_is_dir e \<longleftrightarrow> e_type e \<in> {1, 2, 4}"

definition tiny_change_dir :: "tiny AdfVolume \<Rightarrow> string \<Rightarrow> int \<times> tiny AdfVolume" where
  "tiny_change_dir v d =
     (case find (\<lambda>e. e_name e = d \<and> tiny_is_dir e) (tiny_list v (curDirPtr v)) of
        None \<Rightarrow> (1, v)
      | Some e \<Rightarrow> (0, v\<lparr>curDirPtr := if e_type e = 4 then e_real e else e_sector e\<rparr>))"

definition tiny_open :: "tiny AdfVolume \<Rightarrow> string \<Rightarrow> tiny_file option \<times> tiny AdfVolume" where
  "tiny_open v n =
     (case tiny_content v (curDirPtr v) n of
        None \<Rightarrow> (None, v)
      | Some bs \<Rightarrow> (Some \<lparr>tf_dir = curDirPtr v, tf_name = n, tf_pos = 0, tf_size = length bs\<rparr>, v))"

definition tiny_bytes :: "tiny AdfVolume \<Rightarrow> tiny_file \<Rightarrow> char list" where
  "tiny_bytes v f = (case tiny_content v (tf_dir f) (tf_name f) of None \<Rightarrow> [] | Some bs \<Rightarrow> bs)"

definition tiny_write ::
  "tiny AdfVolume \<Rightarrow> tiny_file \<Rightarrow> char list \<Rightarrow> 32 word \<times> tiny_file \<times> tiny AdfVolume" where
  "tiny_write v f new =
     (let k = word_of_nat (length new) :: 32 word
      in (k, f, tiny_put_file v (tf_dir f, tf_name f) (splice (tiny_bytes v f) (tf_pos f) (take (unat k) new))))"

definition tiny_truncate ::
  "tiny AdfVolume \<Rightarrow> tiny_file \<Rightarrow> 32 word \<Rightarrow> int \<times> tiny_file \<times> tiny AdfVolume" where
  "tiny_truncate v f n = (0, f, tiny_put_file v (tf_dir f, tf_name f) (take (unat n) (tiny_bytes v f)))"

definition tiny_entry :: "int \<Rightarrow> string \<Rightarrow> int \<Rightarrow> AdfEntry" where
  "tiny_entry ty n s = no_entry\<lparr>e_type := ty, e_name := n, e_sector := s\<rparr>"

definition tiny_create_file :: "tiny AdfVolume \<Rightarrow> int \<Rightarrow> string \<Rightarrow> int \<times> tiny AdfVolume" where
  "tiny_create_file v s n =
     (0, tiny_put_file (tiny_put_dir v s (tiny_list v s @ [tiny_entry (- 3) n 0])) (s, n) [])"

definition tiny_create_dir :: "tiny AdfVolume \<Rightarrow> int \<Rightarrow> string \<Rightarrow> int \<times> tiny AdfVolume" where
  "tiny_create_dir v s n =
     (0, tiny_put_dir v s (tiny_list v s @ [tiny_entry 2 n (1000 + int (length (t_dirs (volData v))))]))"

definition tiny_remove :: "tiny AdfVolume \<Rightarrow> int \<Rightarrow> string \<Rightarrow> int \<times> tiny AdfVolume" where
  "tiny_remove v s n =
     (if list_ex (\<lambda>e. e_name e = n) (tiny_list v s)
      then (0, tiny_put_dir v s (filter (\<lambda>e. e_name e \<noteq> n) (tiny_list v s))) else (1, v))"

text \<open>Renaming moves what is no directory: its entry, and its bytes if it is a file.\<close>

definition tiny_move_file :: "tiny AdfVolume \<Rightarrow> int \<times> string \<Rightarrow> int \<times> string \<Rightarrow> tiny AdfVolume" where
  "tiny_move_file v old new =
     v\<lparr>volData := (volData v)\<lparr>t_files :=
       (case map_of (t_files (volData v)) old of None \<Rightarrow> [] | Some bs \<Rightarrow> [(new, bs)]) @
       filter (\<lambda>f. fst f \<noteq> old) (t_files (volData v))\<rparr>\<rparr>"

definition tiny_rename ::
  "tiny AdfVolume \<Rightarrow> int \<Rightarrow> string \<Rightarrow> int \<Rightarrow> string \<Rightarrow> int \<times> tiny AdfVolume" where
  "tiny_rename v s n s' n' =
     (case find (\<lambda>e. e_name e = n \<and> \<not> tiny_is_dir e) (tiny_list v s) of
        None \<Rightarrow> (1, v)
      | Some e \<Rightarrow>
          let v1 = tiny_put_dir v s (filter (\<lambda>e. e_name e \<noteq> n \<or> tiny_is_dir e) (tiny_list v s))
          in (0, tiny_move_file (tiny_put_dir v1 s' (tiny_list v1 s' @ [e\<lparr>e_name := n'\<rparr>])) (s, n) (s', n')))"

definition no_block :: AdfBlock where
  "no_block =
     \<lparr>b_access = 0, b_secType = 0, b_hashTable = [], b_name = [], b_realName = [], b_realEntry = 0,
      b_bmFlag = - 1, b_raw = []\<rparr>"

definition tiny_read_block :: "tiny AdfVolume \<Rightarrow> int \<Rightarrow> int \<times> AdfBlock" where
  "tiny_read_block v s = (case map_of (t_blocks (volData v)) s of None \<Rightarrow> (1, no_block) | Some b \<Rightarrow> (0, b))"

definition tiny_write_block :: "tiny AdfVolume \<Rightarrow> int \<Rightarrow> AdfBlock \<Rightarrow> int \<times> tiny AdfVolume" where
  "tiny_write_block v s b =
     (0, v\<lparr>volData := (volData v)\<lparr>t_blocks := (s, b) # t_blocks (volData v)\<rparr>\<rparr>)"

text \<open>The hash table of a directory's block holds the sector of the directory.\<close>

definition tiny_name_to_block :: "tiny AdfVolume \<Rightarrow> int list \<Rightarrow> string \<Rightarrow> int \<times> AdfBlock" where
  "tiny_name_to_block v ht n =
     (case ht of
        [] \<Rightarrow> (- 1, no_block)
      | s # _ \<Rightarrow>
          (case find (\<lambda>e. e_name e = n) (tiny_list v s) of
             None \<Rightarrow> (- 1, no_block)
           | Some e \<Rightarrow> (e_sector e, snd (tiny_read_block v (e_sector e)))))"

definition tiny_lib :: "(tiny, tiny_file) adflib" where
  "tiny_lib =
     \<lparr>K = tiny_consts,
      adfToRootDir = (\<lambda>v. v\<lparr>curDirPtr := rootBlock v\<rparr>),
      adfChangeDir = tiny_change_dir,
      adfGetDirEnt = tiny_list,
      adfReadRootBlock = tiny_read_block,
      adfEntBlock2Entry = (\<lambda>b e. (0, e\<lparr>e_type := b_secType b, e_name := b_name b, e_access := b_access b\<rparr>)),
      adfReadEntryBlock = tiny_read_block,
      adfWriteEntryBlock = tiny_write_block,
      adfNameToEntryBlk = tiny_name_to_block,
      adfAccHasR = (\<lambda>a. and a 8 \<noteq> 0),
      adfAccHasW = (\<lambda>a. and a 4 \<noteq> 0),
      adfAccHasE = (\<lambda>a. and a 2 \<noteq> 0),
      adfFileOpen = (\<lambda>v n m. tiny_open v n),
      adfFileSeek = (\<lambda>v f off. (0, f\<lparr>tf_pos := unat off\<rparr>, v)),
      adfFileRead = (\<lambda>v f n. (take (unat n) (drop (tf_pos f) (tiny_bytes v f)), f, v)),
      adfFileWrite = tiny_write,
      adfFileTruncate = tiny_truncate,
      adfFileClose = (\<lambda>v f. v),
      fileHdr_byteSize = (\<lambda>f. word_of_nat (tf_size f)),
      adfCreateDir = tiny_create_dir,
      adfCreateFile = tiny_create_file,
      adfRemoveEntry = tiny_remove,
      adfRenameEntry = tiny_rename,
      adfCountFreeBlocks = (\<lambda>v. 100)\<rparr>"

subsection \<open>It keeps the contracts\<close>

lemma tiny_simps [simp]:
  "K tiny_lib = tiny_consts"
  "adfToRootDir tiny_lib = (\<lambda>v. v\<lparr>curDirPtr := rootBlock v\<rparr>)"
  "adfChangeDir tiny_lib = tiny_change_dir"
  "adfGetDirEnt tiny_lib = tiny_list"
  "adfReadRootBlock tiny_lib = tiny_read_block"
  "adfReadEntryBlock tiny_lib = tiny_read_block"
  "adfWriteEntryBlock tiny_lib = tiny_write_block"
  "adfNameToEntryBlk tiny_lib = tiny_name_to_block"
  "adfFileOpen tiny_lib = (\<lambda>v n m. tiny_open v n)"
  "adfFileSeek tiny_lib = (\<lambda>v f off. (0, f\<lparr>tf_pos := unat off\<rparr>, v))"
  "adfFileRead tiny_lib = (\<lambda>v f n. (take (unat n) (drop (tf_pos f) (tiny_bytes v f)), f, v))"
  "adfFileWrite tiny_lib = tiny_write"
  "adfFileTruncate tiny_lib = tiny_truncate"
  "adfFileClose tiny_lib = (\<lambda>v f. v)"
  "fileHdr_byteSize tiny_lib = (\<lambda>f. word_of_nat (tf_size f))"
  "adfCreateDir tiny_lib = tiny_create_dir"
  "adfCreateFile tiny_lib = tiny_create_file"
  "adfRemoveEntry tiny_lib = tiny_remove"
  "adfRenameEntry tiny_lib = tiny_rename"
  "adfCountFreeBlocks tiny_lib = (\<lambda>v. 100)"
  "adfEntBlock2Entry tiny_lib =
     (\<lambda>b e. (0, e\<lparr>e_type := b_secType b, e_name := b_name b, e_access := b_access b\<rparr>))"
  "adfAccHasR tiny_lib = (\<lambda>a. and a 8 \<noteq> 0)"
  "adfAccHasW tiny_lib = (\<lambda>a. and a 4 \<noteq> 0)"
  "adfAccHasE tiny_lib = (\<lambda>a. and a 2 \<noteq> 0)"
  by (simp_all add: tiny_lib_def)

lemma tiny_list_cur [simp]: "tiny_list (v\<lparr>curDirPtr := s\<rparr>) = tiny_list v"
  by (rule ext) (simp add: tiny_list_def)

lemma tiny_content_cur [simp]: "tiny_content (v\<lparr>curDirPtr := s\<rparr>) = tiny_content v"
  by (intro ext) (simp add: tiny_content_def)

lemma tiny_nav: "nav_ok tiny_lib"
proof -
  have "\<exists>s. snd (tiny_change_dir v d) = v\<lparr>curDirPtr := s\<rparr>" for v d
  proof (cases "find (\<lambda>e. e_name e = d \<and> tiny_is_dir e) (tiny_list v (curDirPtr v))")
    case None
    then have "snd (tiny_change_dir v d) = v\<lparr>curDirPtr := curDirPtr v\<rparr>"
      by (simp add: tiny_change_dir_def cur_id)
    then show ?thesis by blast
  qed (auto simp: tiny_change_dir_def)
  moreover have "fst (tiny_change_dir v d) \<noteq> 0 \<Longrightarrow> snd (tiny_change_dir v d) = v" for v d
    by (simp add: tiny_change_dir_def split: option.splits)
  ultimately show ?thesis by (simp add: nav_ok_def tiny_consts_def)
qed

lemma tiny_const: "const_ok tiny_lib"
  by (simp add: const_ok_def tiny_consts_def)

lemma tiny_access: "access_ok tiny_lib"
  by (simp add: access_ok_def tiny_consts_def)

lemma tiny_close: "close_ok tiny_lib"
  by (simp add: close_ok_def)

lemma tiny_cur_free: "cur_free tiny_lib"
  by (auto simp: cur_free_def tiny_close ignores_cur_def keeps_cur_def truncate_file_def tiny_read_block_def
      tiny_write_block_def tiny_truncate_def tiny_rename_def tiny_move_file_def tiny_put_file_def tiny_put_dir_def tiny_bytes_def
      tiny_list_def [abs_def] Let_def split: option.split)

lemma tiny_files: "files_ok tiny_lib tiny_content"
  by (auto simp: files_ok_def opens_for_reading_def tiny_open_def tiny_bytes_def
      tiny_consts_def split: option.split)

lemma tiny_tree:
  assumes "rootBlock w = rootBlock v" "\<And>s. filter tiny_is_dir (tiny_list w s) = filter tiny_is_dir (tiny_list v s)"
  shows "same_tree tiny_lib v w"
proof -
  have find_filter: "find (\<lambda>e. e_name e = n \<and> tiny_is_dir e) es = find (\<lambda>e. e_name e = n) (filter tiny_is_dir es)"
    for n and es :: "AdfEntry list"
    by (induction es) auto
  show ?thesis
    using assms by (simp add: same_tree_def tiny_change_dir_def find_filter split: option.split)
qed

lemma tiny_put_file_list [simp]: "tiny_list (tiny_put_file v k bs) s = tiny_list v s"
  by (simp add: tiny_put_file_def tiny_list_def)

lemma tiny_put_dir_list [simp]:
  "tiny_list (tiny_put_dir v s es) t = (if t = s then es else tiny_list v t)"
  by (simp add: tiny_put_dir_def tiny_list_def)

lemma tiny_put_sel [simp]:
  "rootBlock (tiny_put_file v k bs) = rootBlock v" "rootBlock (tiny_put_dir v s es) = rootBlock v"
  "curDirPtr (tiny_put_file v k bs) = curDirPtr v"
  by (simp_all add: tiny_put_file_def tiny_put_dir_def)

lemma tiny_put_content:
  "tiny_content (tiny_put_file v (d, n) bs) d' m = (if d' = d \<and> m = n then Some bs else tiny_content v d' m)"
  by (auto simp: tiny_content_def tiny_put_file_def)

lemma tiny_creates: "creates_ok tiny_lib"
  by (auto simp: creates_ok_def tiny_create_file_def tiny_entry_def tiny_is_dir_def intro!: tiny_tree)

lemma tiny_writes: "writes_ok tiny_lib tiny_content"
proof -
  have "unat (word_of_nat (length new) :: 32 word) \<le> length new" for new :: "char list"
    by (simp add: unsigned_of_nat)
  then show ?thesis
    by (auto simp: writes_ok_def tiny_open_def tiny_write_def Let_def tiny_bytes_def tiny_put_content
        tiny_consts_def intro!: tiny_tree)
qed

lemma tiny_truncates: "truncates_ok tiny_lib tiny_content"
  by (auto simp: truncates_ok_def tiny_open_def tiny_truncate_def tiny_bytes_def tiny_put_content
      tiny_consts_def
      intro!: tiny_tree)

lemma tiny_move_sel [simp]:
  "tiny_list (tiny_move_file v k k') = tiny_list v" "rootBlock (tiny_move_file v k k') = rootBlock v"
  by (simp_all add: tiny_move_file_def tiny_list_def [abs_def])

lemma tiny_put_dir_content [simp]: "tiny_content (tiny_put_dir v s es) = tiny_content v"
  by (intro ext) (simp add: tiny_put_dir_def tiny_content_def)

lemma tiny_move_content:
  assumes "tiny_content v s n = Some bs"
  shows "tiny_content (tiny_move_file v (s, n) (s', n')) d m =
    (if d = s' \<and> m = n' then Some bs else if d = s \<and> m = n then None else tiny_content v d m)"
proof -
  have "map_of (filter (\<lambda>f. fst f \<noteq> k) fs) l = (if l = k then None else map_of fs l)" for k l and fs :: "((int \<times> string) \<times> char list) list"
    by (induction fs) auto
  with assms show ?thesis by (auto simp: tiny_content_def tiny_move_file_def)
qed

lemma tiny_renames: "renames_ok tiny_lib tiny_content"
proof -
  have dirs: "filter (\<lambda>e. (e_name e = n \<longrightarrow> tiny_is_dir e) \<and> tiny_is_dir e) es = filter tiny_is_dir es" for n es
    by (induction es) auto
  have "\<not> tiny_is_dir (e\<lparr>e_name := n'\<rparr>)" if "find (\<lambda>e. e_name e = n \<and> \<not> tiny_is_dir e) es = Some e" for n n' e es
    using that by (auto simp: find_Some_iff tiny_is_dir_def)
  then show ?thesis
    by (auto simp: renames_ok_def tiny_rename_def Let_def tiny_consts_def tiny_move_content dirs
        split: option.split_asm intro!: tiny_tree)
qed

lemma tiny_enters: "enters_listed tiny_lib"
proof -
  have dir: "is_dir \<lparr>dtype = dentry_type_of tiny_lib e, adflib_entry = e\<rparr> = tiny_is_dir e" for e
    by (auto simp: is_dir_def dentry_type_of_def tiny_consts_def tiny_is_dir_def)
  have find_dir: "find (\<lambda>e. e_name e = n \<and> tiny_is_dir e) es = Some e"
    if "find (\<lambda>e. e_name e = n) es = Some e" "tiny_is_dir e" for n e es
    using that by (induction es) (auto split: if_split_asm)
  have "curDirPtr v' = parent_sector d"
    if "d = lookup_entry tiny_lib (tiny_list v (curDirPtr v)) n" "is_dir d" "tiny_change_dir v n = (0, v')" for v n v' d
  proof -
    from that(1,2) obtain e where e: "find (\<lambda>e. e_name e = n) (tiny_list v (curDirPtr v)) = Some e"
      "d = \<lparr>dtype = dentry_type_of tiny_lib e, adflib_entry = e\<rparr>" "tiny_is_dir e"
      by (auto simp: lookup_entry_def adflib_list_find_eq dir no_dentry_def is_dir_def [of no_dentry]
          split: option.split_asm) (auto simp: is_dir_def)
    with that(3) find_dir [OF e(1,3)] show ?thesis
      by (auto simp: tiny_change_dir_def parent_sector_def dentry_type_of_def tiny_consts_def tiny_is_dir_def)
  qed
  note sector = this [OF refl]
  show ?thesis
    unfolding enters_listed_def Let_def
  proof (intro allI impI)
    fix v n rc v'
    let ?d = "lookup_entry tiny_lib (adfGetDirEnt tiny_lib v (curDirPtr v)) n"
    assume "is_dir ?d \<and> adfChangeDir tiny_lib v n = (rc, v') \<and> rc_ok tiny_lib rc"
    then have "is_dir (lookup_entry tiny_lib (tiny_list v (curDirPtr v)) n)" "tiny_change_dir v n = (0, v')"
      by (simp_all add: tiny_consts_def)
    from sector [OF this] show "curDirPtr v' = parent_sector ?d" by simp
  qed
qed

lemmas tiny_contracts =
  tiny_nav tiny_const tiny_access tiny_close tiny_files tiny_creates tiny_writes tiny_truncates tiny_renames tiny_enters

subsection \<open>A volume, an image and a state\<close>

definition tiny_data :: tiny where
  "tiny_data =
     \<lparr>t_dirs =
        [(880, [tiny_entry 2 ''docs'' 900, tiny_entry (- 3) ''readme'' 901, tiny_entry 3 ''link'' 902]),
         (900, [tiny_entry (- 3) ''a.txt'' 910, tiny_entry 2 ''sub'' 920])],
      t_files = [((880, ''readme''), ''hello''), ((900, ''a.txt''), ''amiga'')],
      t_blocks =
        [(880, no_block\<lparr>b_secType := 1, b_hashTable := [880]\<rparr>),
         (900, no_block\<lparr>b_secType := 2, b_hashTable := [900]\<rparr>),
         (902, no_block\<lparr>b_secType := 3, b_realName := ''docs/a.txt''\<rparr>),
         (910, no_block\<lparr>b_secType := - 3, b_name := ''a.txt''\<rparr>)]\<rparr>"

definition tiny_volume :: "tiny AdfVolume" where
  "tiny_volume =
     \<lparr>volName = ''Work'', curDirPtr = 880, rootBlock = 880, vol_readOnly = False, datablockSize = 512,
      firstBlock = 0, lastBlock = 1759, volData = tiny_data\<rparr>"

definition tiny_image :: "tiny adfimage" where
  "tiny_image =
     \<lparr>filename = ''work.adf'', dev = Some \<lparr>dev_name = ''work.adf'', dev_readOnly = False\<rparr>,
      vol = Some tiny_volume, fstat_blksize = 4096, cwd = ''/'', heap = []\<rparr>"

definition tiny_state :: "tiny adffs_state" where
  "tiny_state = \<lparr>mountpoint = Some ''/mnt'', image = Some tiny_image, logfile = None\<rparr>"

definition tiny_env :: fuse_env where
  "tiny_env = \<lparr>euid = 1000, egid = 100, tz = (\<lambda>_. 3600)\<rparr>"

text \<open>The same image with its two working directories elsewhere, and not the same.\<close>

definition tiny_image_moved :: "tiny adfimage" where
  "tiny_image_moved = tiny_image\<lparr>vol := Some (tiny_volume\<lparr>curDirPtr := 900\<rparr>), cwd := ''/docs/sub''\<rparr>"

lemma tiny_names [simp]:
  "is_name ''docs''" "is_name ''readme''" "is_name ''a.txt''" "is_name ''sub''" "is_name ''link''" "is_name ''new''"
  by (simp_all add: is_name_def)

lemma tiny_volume_sel [simp]:
  "curDirPtr tiny_volume = 880" "rootBlock tiny_volume = 880" "\<not> vol_readOnly tiny_volume"
  "tiny_volume\<lparr>curDirPtr := 880\<rparr> = tiny_volume"
  by (simp_all add: tiny_volume_def)

lemma tiny_image_sel [simp]:
  "vol tiny_image = Some tiny_volume" "heap tiny_image = []" "cwd tiny_image = ''/''"
  "fstat_blksize tiny_image = 4096" "dev tiny_image \<noteq> None" "image tiny_state = Some tiny_image"
  by (simp_all add: tiny_image_def tiny_state_def)

lemma tiny_list_sel [simp]:
  "tiny_list tiny_volume 880 = [tiny_entry 2 ''docs'' 900, tiny_entry (- 3) ''readme'' 901, tiny_entry 3 ''link'' 902]"
  "tiny_list tiny_volume 900 = [tiny_entry (- 3) ''a.txt'' 910, tiny_entry 2 ''sub'' 920]"
  "tiny_list tiny_volume 920 = []"
  by (simp_all add: tiny_list_def tiny_volume_def tiny_data_def)

lemma tiny_content_sel [simp]:
  "tiny_content tiny_volume 880 ''readme'' = Some ''hello''"
  "tiny_content tiny_volume 900 ''a.txt'' = Some ''amiga''"
  "tiny_content tiny_volume 900 ''new'' = None"
  by (simp_all add: tiny_content_def tiny_volume_def tiny_data_def)

lemma tiny_entry_sel [simp]:
  "e_type (tiny_entry t n s) = t" "e_name (tiny_entry t n s) = n" "e_sector (tiny_entry t n s) = s"
  by (simp_all add: tiny_entry_def)

lemma tiny_steps [simp]:
  "tiny_change_dir tiny_volume ''docs'' = (0, tiny_volume\<lparr>curDirPtr := 900\<rparr>)"
  "tiny_change_dir (tiny_volume\<lparr>curDirPtr := 900\<rparr>) ''sub'' = (0, tiny_volume\<lparr>curDirPtr := 920\<rparr>)"
  "tiny_change_dir (tiny_volume\<lparr>curDirPtr := 900\<rparr>) ''new'' = (1, tiny_volume\<lparr>curDirPtr := 900\<rparr>)"
  "ADF_RC_OK tiny_consts = 0"
  by (simp_all add: tiny_change_dir_def tiny_consts_def tiny_is_dir_def)

lemma tiny_walk:
  "adf_walk tiny_lib tiny_volume [''docs''] = (True, tiny_volume\<lparr>curDirPtr := 900\<rparr>, [''docs''])"
  "adf_walk tiny_lib tiny_volume [''docs'', ''sub''] = (True, tiny_volume\<lparr>curDirPtr := 920\<rparr>, [''docs'', ''sub''])"
  "adf_walk tiny_lib tiny_volume [''docs'', ''new''] = (False, tiny_volume\<lparr>curDirPtr := 900\<rparr>, [''docs''])"
  by simp_all

lemma tiny_in_sync: "in_sync tiny_lib tiny_image"
  by (rule in_syncI [of _ tiny_volume "[]"]) (simp_all add: ADFIMAGE_MAX_PATH_def)

lemma tiny_represents: "fs_represents tiny_lib 4096 1 tiny_state tiny_volume"
  by (simp add: fs_represents_def represents_def) (intro exI [of _ "[]"], simp)

lemma tiny_reads_within: "reads_within tiny_lib"
  by (simp add: reads_within_def)

end
