(* ===== verification/C_Getopt.thy ===== *)
theory C_Getopt
  imports C_Memory
begin

section \<open>The C library's option scanner\<close>

text \<open>
  \<open>getopt\<close> and \<open>strtoul\<close> as glibc has them. \<open>fuseadf.c\<close> changes \<open>optind\<close> and the argument
  vector between two calls of \<open>getopt\<close>, so what it gets depends on the scanner's own state;
  the model has that state: the rest of the element being scanned, and the range of
  arguments that are no options and were passed over. The scanner is the permuting one
  (\<open>POSIXLY_CORRECT\<close> is not set), with short options only.

  \<open>argv\<close> is an array of strings and null pointers; reading behind it, and following a null
  pointer, is \<open>None\<close>.
\<close>

subsection \<open>Argument vectors\<close>

type_synonym args = "string option list"

definition arg_at :: "args \<Rightarrow> nat \<Rightarrow> string option option" where
  "arg_at argv i = (if i < length argv then Some (argv ! i) else None)"

definition deref :: "args \<Rightarrow> nat \<Rightarrow> string option" where
  "deref argv i = do { p \<leftarrow> arg_at argv i; p }"

text \<open>A string that starts with \<open>-\<close> and goes on is an option.\<close>

definition is_option :: "string \<Rightarrow> bool" where
  "is_option s = (length s \<ge> 2 \<and> hd s = CHR ''-'')"

subsection \<open>The scanner\<close>

record getopt_data =
  optind :: nat
  nextchar :: string
  first_nonopt :: nat
  last_nonopt :: nat

definition getopt_initialize :: getopt_data where
  "getopt_initialize = \<lparr>optind = 1, nextchar = [], first_nonopt = 1, last_nonopt = 1\<rparr>"

text \<open>Swap the arguments passed over with the options behind them.\<close>

definition exchange :: "args \<Rightarrow> nat \<Rightarrow> nat \<Rightarrow> nat \<Rightarrow> args" where
  "exchange argv bottom middle upper =
     (if bottom < middle \<and> middle < upper
      then take bottom argv @ take (upper - middle) (drop middle argv) @
           take (middle - bottom) (drop bottom argv) @ drop upper argv
      else argv)"

function skip_nonopts :: "nat \<Rightarrow> args \<Rightarrow> nat \<Rightarrow> nat option" where
  "skip_nonopts argc argv i =
     (if i < argc then do {
        s \<leftarrow> deref argv i;
        if is_option s then Some i else skip_nonopts argc argv (i + 1)
      }
      else Some i)"
  by pat_completeness auto
termination
  by (relation "measure (\<lambda>(argc, argv, i). argc - i)") auto

declare skip_nonopts.simps [simp del]

text \<open>
  Bring the options scanned last in front of the arguments passed over before them. The two
  bounds are clamped first, since the program may have moved \<open>optind\<close> back.
\<close>

definition move_nonopts :: "args \<Rightarrow> getopt_data \<Rightarrow> args \<times> nat" where
  "move_nonopts argv g =
     (let l = min (last_nonopt g) (optind g);
          f = min (first_nonopt g) (optind g)
      in if f \<noteq> l \<and> l \<noteq> optind g then (exchange argv f l (optind g), f + (optind g - l))
         else if l \<noteq> optind g then (argv, optind g)
         else (argv, f))"

text \<open>
  At the element \<open>i\<close>, the next one that is an option: \<open>--\<close> ends the options. The result is
  \<open>False\<close> at the end.
\<close>

definition enter_element ::
  "nat \<Rightarrow> args \<Rightarrow> nat \<Rightarrow> nat \<Rightarrow> getopt_data \<Rightarrow> (bool \<times> args \<times> getopt_data) option" where
  "enter_element argc argv f i g =
     (if i = argc then
        Some (False, argv, g\<lparr>optind := (if f \<noteq> i then f else i), first_nonopt := f, last_nonopt := i\<rparr>)
      else do {
        s \<leftarrow> deref argv i;
        if s = ''--'' then
          let (argv', f') = (if f \<noteq> i then (exchange argv f i (i + 1), f + 1) else (argv, i + 1))
          in Some (False, argv',
               g\<lparr>optind := (if f' \<noteq> argc then f' else argc), first_nonopt := f', last_nonopt := argc\<rparr>)
        else
          Some (True, argv, g\<lparr>optind := i, nextchar := tl s, first_nonopt := f, last_nonopt := i\<rparr>)
      })"

definition next_element ::
  "nat \<Rightarrow> args \<Rightarrow> getopt_data \<Rightarrow> (bool \<times> args \<times> getopt_data) option" where
  "next_element argc argv g =
     (case move_nonopts argv g of (argv1, f) \<Rightarrow> do {
        i \<leftarrow> skip_nonopts argc argv1 (optind g);
        enter_element argc argv1 f i g
      })"

text \<open>
  What the option string says of a character: \<open>None\<close> for no option, otherwise whether it has
  an argument, needed (1) or optional (2).
\<close>

definition opt_kind :: "string \<Rightarrow> char \<Rightarrow> nat option" where
  "opt_kind optstring c =
     (if c = CHR '':'' \<or> c = CHR '';'' then None
      else case dropWhile (\<lambda>d. d \<noteq> c) optstring of
        [] \<Rightarrow> None
      | _ # rest \<Rightarrow> Some (length (takeWhile (\<lambda>d. d = CHR '':'') (take 2 rest))))"

datatype opt = End | Opt char

text \<open>Handle the next character of the element.\<close>

definition next_char ::
  "string \<Rightarrow> nat \<Rightarrow> args \<Rightarrow> getopt_data \<Rightarrow> (opt \<times> string option \<times> getopt_data) option" where
  "next_char optstring argc argv g =
     (case nextchar g of
        [] \<Rightarrow> None
      | c # rest \<Rightarrow>
          (let i = (if rest = [] then optind g + 1 else optind g) in
           case opt_kind optstring c of
             None \<Rightarrow> Some (Opt CHR ''?'', None, g\<lparr>optind := i, nextchar := rest\<rparr>)
           | Some k \<Rightarrow>
               if k = 0 then Some (Opt c, None, g\<lparr>optind := i, nextchar := rest\<rparr>)
               else if rest \<noteq> [] then Some (Opt c, Some rest, g\<lparr>optind := i + 1, nextchar := []\<rparr>)
               else if k = 2 then Some (Opt c, None, g\<lparr>optind := i, nextchar := []\<rparr>)
               else if i = argc then Some (Opt CHR ''?'', None, g\<lparr>optind := i, nextchar := []\<rparr>)
               else do {
                 arg \<leftarrow> arg_at argv i;
                 Some (Opt c, arg, g\<lparr>optind := i + 1, nextchar := []\<rparr>)
               }))"

text \<open>Setting \<open>optind\<close> to 0 makes the scanner start anew.\<close>

definition restart :: "getopt_data \<Rightarrow> getopt_data" where
  "restart g = (if optind g = 0 then getopt_initialize else g)"

definition fetch_element ::
  "nat \<Rightarrow> args \<Rightarrow> getopt_data \<Rightarrow> (bool \<times> args \<times> getopt_data) option" where
  "fetch_element argc argv g =
     (if nextchar g = [] then next_element argc argv g else Some (True, argv, g))"

definition getopt ::
  "string \<Rightarrow> nat \<Rightarrow> args \<Rightarrow> getopt_data \<Rightarrow> (opt \<times> string option \<times> args \<times> getopt_data) option" where
  "getopt optstring argc argv g =
     (if argc < 1 then Some (End, None, argv, g)
      else do {
        (more, argv1, g1) \<leftarrow> fetch_element argc argv (restart g);
        if \<not> more then Some (End, None, argv1, g1)
        else do {
          (r, optarg, g2) \<leftarrow> next_char optstring argc argv1 g1;
          Some (r, optarg, argv1, g2)
        }
      })"

subsection \<open>Numbers\<close>

text \<open>
  \<open>strtoul\<close> to base 10: blanks, a sign, digits. The result says whether there was a digit. A
  number beyond 64 bits gives the largest one, a minus sign negates modulo \<open>2 ^ 64\<close>.
\<close>

definition is_digit :: "char \<Rightarrow> bool" where
  "is_digit c = (let n = (of_char c :: nat) in 48 \<le> n \<and> n \<le> 57)"

definition is_blank :: "char \<Rightarrow> bool" where
  "is_blank c = (let n = (of_char c :: nat) in n = 32 \<or> (9 \<le> n \<and> n \<le> 13))"

definition decimal :: "string \<Rightarrow> nat" where
  "decimal s = foldl (\<lambda>n c. n * 10 + (of_char c - 48)) 0 s"

definition strtoul :: "string \<Rightarrow> bool \<times> 64 word" where
  "strtoul s =
     (let t = dropWhile is_blank s;
          neg = (t \<noteq> [] \<and> hd t = CHR ''-'');
          u = (if t \<noteq> [] \<and> hd t \<in> {CHR ''-'', CHR ''+''} then tl t else t);
          ds = takeWhile is_digit u;
          n = decimal ds
      in if ds = [] then (False, 0)
         else (True, if n \<ge> 2 ^ 64 then - 1 else if neg then - word_of_nat n else word_of_nat n))"

subsection \<open>Facts about the scanner\<close>

text \<open>An argument vector as a program gets it: strings, then at least one null pointer.\<close>

definition vec :: "string list \<Rightarrow> nat \<Rightarrow> args" where
  "vec xs k = map Some xs @ replicate k None"

lemma length_vec [simp]: "length (vec xs k) = length xs + k"
  by (simp add: vec_def)

lemma vec_append: "vec (xs @ ys) k = map Some xs @ vec ys k"
  by (simp add: vec_def)

lemma arg_at_vec:
  "i < length xs \<Longrightarrow> arg_at (vec xs k) i = Some (Some (xs ! i))"
  by (simp add: arg_at_def vec_def nth_append)

lemma deref_vec: "i < length xs \<Longrightarrow> deref (vec xs k) i = Some (xs ! i)"
  by (simp add: deref_def arg_at_vec)

lemma deref_lt: "deref argv i = Some s \<Longrightarrow> i < length argv \<and> argv ! i = Some s"
  by (auto simp: deref_def arg_at_def bind_Some_iff split: if_splits)

lemma take_vec: "n \<le> length xs \<Longrightarrow> take n (vec xs k) = map Some (take n xs)"
  by (simp add: vec_def take_map)

lemma drop_vec: "n \<le> length xs \<Longrightarrow> drop n (vec xs k) = vec (drop n xs) k"
  by (simp add: vec_def drop_map)

text \<open>Exchanging keeps the length, and everything from \<open>upper\<close> on.\<close>

lemma length_exchange [simp]: "length (exchange argv b m u) = length argv"
  by (auto simp: exchange_def)

lemma drop_exact: "length p = n \<Longrightarrow> drop n (p @ q) = q"
  by simp

lemma drop_exchange: "drop u (exchange argv b m u) = drop u argv"
proof (cases "b < m \<and> m < u")
  case True
  let ?p = "take b argv @ take (u - m) (drop m argv) @ take (m - b) (drop b argv)"
  have split: "exchange argv b m u = ?p @ drop u argv" using True by (simp add: exchange_def)
  have len: "length ?p = min u (length argv)" using True by auto
  show ?thesis
  proof (cases "u \<le> length argv")
    case True
    with len have "length ?p = u" by linarith
    then have "drop u (?p @ drop u argv) = drop u argv" by (rule drop_exact)
    with split show ?thesis by simp
  next
    case False
    then show ?thesis by simp
  qed
qed (auto simp: exchange_def)

lemma exchange_vec:
  assumes "u \<le> length xs"
  shows "\<exists>ys. exchange (vec xs k) b m u = vec ys k \<and> length ys = length xs"
proof (cases "b < m \<and> m < u")
  case True
  with assms have "b \<le> length xs" "m \<le> length xs" "m - b \<le> length (drop b xs)" "u - m \<le> length (drop m xs)"
    by auto
  with True assms have "exchange (vec xs k) b m u =
      vec (take b xs @ take (u - m) (drop m xs) @ take (m - b) (drop b xs) @ drop u xs) k"
    by (simp add: exchange_def take_vec drop_vec vec_append)
  with True assms show ?thesis
    by (intro exI [of _ "take b xs @ take (u - m) (drop m xs) @ take (m - b) (drop b xs) @ drop u xs"]) auto
qed (auto simp: exchange_def)

lemma skip_nonopts_result:
  assumes "skip_nonopts argc argv i = Some j"
  shows "i \<le> j \<and> (i \<le> argc \<longrightarrow> j \<le> argc) \<and>
    (j \<noteq> argc \<longrightarrow> i < argc \<longrightarrow> (\<exists>s. deref argv j = Some s \<and> is_option s))"
  using assms
proof (induction argc argv i rule: skip_nonopts.induct)
  case (1 argc argv i)
  show ?case
  proof (cases "i < argc")
    case False
    with 1 show ?thesis by (simp add: skip_nonopts.simps)
  next
    case True
    from 1(2) True obtain s where s: "deref argv i = Some s"
      and rest: "(if is_option s then Some i else skip_nonopts argc argv (i + 1)) = Some j"
      by (subst (asm) skip_nonopts.simps) (auto simp: bind_Some_iff)
    show ?thesis
    proof (cases "is_option s")
      case True
      with rest s \<open>i < argc\<close> show ?thesis by auto
    next
      case no: False
      with rest have "skip_nonopts argc argv (i + 1) = Some j" by simp
      from 1(1) [OF True s no this] True this show ?thesis
        by (cases "i + 1 < argc") (auto simp: skip_nonopts.simps)
    qed
  qed
qed

lemma skip_nonopts_vec:
  "i \<le> length xs \<Longrightarrow> \<exists>j. skip_nonopts (length xs) (vec xs k) i = Some j"
proof (induction "length xs - i" arbitrary: i)
  case 0
  then show ?case by (subst skip_nonopts.simps) simp
next
  case (Suc n)
  then have "i < length xs" "\<exists>j. skip_nonopts (length xs) (vec xs k) (i + 1) = Some j"
    using Suc.hyps(1) [of "i + 1"] by auto
  then show ?case by (subst skip_nonopts.simps) (auto simp: deref_vec)
qed

subsection \<open>What is left to scan\<close>

text \<open>
  \<open>remaining\<close>: how much of \<open>argv\<close> is still to be scanned. Every call of \<open>getopt\<close> that
  finds an option uses some of it up.
\<close>

definition weight :: "args \<Rightarrow> nat" where
  "weight argv = sum_list (map (\<lambda>p. case p of None \<Rightarrow> 0 | Some s \<Rightarrow> length s + 1) argv)"

definition remaining :: "args \<Rightarrow> getopt_data \<Rightarrow> nat" where
  "remaining argv g =
     (if optind g = 0 \<or> nextchar g = [] then weight (drop (optind g) argv)
      else length (nextchar g) + weight (drop (Suc (optind g)) argv))"

lemma weight_drop_le: "i \<le> j \<Longrightarrow> weight (drop j argv) \<le> weight (drop i argv)"
proof -
  assume "i \<le> j"
  then have "drop i argv = take (j - i) (drop i argv) @ drop j argv"
    by (metis append_take_drop_id drop_drop le_add_diff_inverse2)
  then have "weight (drop i argv) = weight (take (j - i) (drop i argv)) + weight (drop j argv)"
    by (metis (no_types, lifting) weight_def map_append sum_list_append)
  then show ?thesis by simp
qed

lemma weight_drop_deref:
  assumes "deref argv i = Some s"
  shows "weight (drop i argv) = length s + 1 + weight (drop (Suc i) argv)"
proof -
  from deref_lt [OF assms] have "drop i argv = Some s # drop (Suc i) argv"
    by (metis Cons_nth_drop_Suc)
  then show ?thesis by (simp add: weight_def)
qed

lemma next_element_found:
  assumes "next_element argc argv g = Some (True, argv', g')"
  shows "optind g \<le> optind g' \<and> drop (optind g) argv' = drop (optind g) argv \<and> length argv' = length argv \<and>
    (\<exists>s. deref argv' (optind g') = Some s \<and> nextchar g' = tl s) \<and>
    (optind g \<le> argc \<longrightarrow> optind g' < argc \<and> nextchar g' \<noteq> [])"
proof -
  obtain argv1 f where move: "move_nonopts argv g = (argv1, f)" by (cases "move_nonopts argv g")
  with assms obtain i where skip: "skip_nonopts argc argv1 (optind g) = Some i"
    and enter: "enter_element argc argv1 f i g = Some (True, argv', g')"
    by (auto simp: next_element_def bind_Some_iff)
  from enter obtain s where ne: "i \<noteq> argc" and s: "deref argv1 i = Some s" "s \<noteq> ''--''"
    and g': "argv' = argv1" "optind g' = i" "nextchar g' = tl s"
    by (auto simp: enter_element_def bind_Some_iff Let_def split_beta split: if_split_asm)
  from move have same: "drop (optind g) argv1 = drop (optind g) argv" "length argv1 = length argv"
    by (auto simp: move_nonopts_def Let_def drop_exchange split: if_split_asm)
  have "optind g' < argc \<and> nextchar g' \<noteq> []" if "optind g \<le> argc"
  proof -
    from skip_nonopts_result [OF skip] that ne g' have "optind g' < argc" "optind g < argc" by auto
    moreover from skip_nonopts_result [OF skip] ne this(2) s(1) have "is_option s" by auto
    then have "tl s \<noteq> []" by (cases s) (auto simp: is_option_def)
    ultimately show ?thesis using g' by simp
  qed
  with skip_nonopts_result [OF skip] same s g' show ?thesis by auto
qed

lemma next_char_remaining:
  assumes "next_char o' argc argv g = Some (r, optarg, g')" "optind g \<noteq> 0"
  shows "remaining argv g' < length (nextchar g) + weight (drop (Suc (optind g)) argv)"
proof -
  from assms(1) obtain c rest where n: "nextchar g = c # rest"
    by (cases "nextchar g") (auto simp: next_char_def)
  from assms(1) have "nextchar g' = rest \<and> optind g' = (if rest = [] then optind g + 1 else optind g) \<or>
      nextchar g' = [] \<and> Suc (optind g) \<le> optind g'"
    by (auto simp: next_char_def n Let_def bind_Some_iff split: option.split_asm if_split_asm)
  then show ?thesis
  proof
    assume g': "nextchar g' = rest \<and> optind g' = (if rest = [] then optind g + 1 else optind g)"
    with assms(2) n show ?thesis by (cases "rest = []") (simp_all add: remaining_def)
  next
    assume g': "nextchar g' = [] \<and> Suc (optind g) \<le> optind g'"
    with weight_drop_le [of "Suc (optind g)" "optind g'" argv] n show ?thesis by (simp add: remaining_def)
  qed
qed

text \<open>What the program finds after a call that yielded an option.\<close>

lemma getopt_progress:
  assumes "getopt o' argc argv g = Some (Opt c, optarg, argv', g')"
  shows "remaining argv' g' < remaining argv g"
proof -
  let ?g0 = "restart g"
  have r0: "remaining argv ?g0 \<le> remaining argv g"
    using weight_drop_le [of 0 "Suc 0" argv] by (auto simp: restart_def remaining_def getopt_initialize_def)
  have i0: "optind ?g0 \<noteq> 0" by (simp add: restart_def getopt_initialize_def)
  from assms obtain more argv1 g1 where el: "fetch_element argc argv ?g0 = Some (more, argv1, g1)"
    by (auto simp: getopt_def bind_pair_Some_iff split: if_split_asm)
  with assms have el: "fetch_element argc argv ?g0 = Some (True, argv1, g1)"
    and ch: "next_char o' argc argv1 g1 = Some (Opt c, optarg, g')" and a: "argv' = argv1"
    by (auto simp: getopt_def bind_Some_iff split: if_split_asm)
  have "optind g1 \<noteq> 0 \<and> length (nextchar g1) + weight (drop (Suc (optind g1)) argv1) \<le> remaining argv ?g0"
  proof (cases "nextchar ?g0 = []")
    case True
    with el have "next_element argc argv ?g0 = Some (True, argv1, g1)" by (simp add: fetch_element_def)
    from next_element_found [OF this] obtain s where le: "optind ?g0 \<le> optind g1"
      and d: "drop (optind ?g0) argv1 = drop (optind ?g0) argv"
      and s: "deref argv1 (optind g1) = Some s" "nextchar g1 = tl s" by blast
    from weight_drop_deref [OF s(1)] s(2) weight_drop_le [OF le, of argv1] d le i0 True
    show ?thesis by (simp add: remaining_def)
  next
    case False
    with el i0 show ?thesis by (simp add: fetch_element_def remaining_def)
  qed
  with next_char_remaining [OF ch] r0 a show ?thesis by simp
qed

text \<open>
  A state in which the program may call \<open>getopt\<close>: it stands in the argument vector, and at an
  element if that is not used up.
\<close>

definition scannable :: "string list \<Rightarrow> getopt_data \<Rightarrow> bool" where
  "scannable xs g \<longleftrightarrow>
     optind g \<le> length xs \<and> (nextchar g \<noteq> [] \<longrightarrow> optind g < length xs)"

lemma move_nonopts_vec:
  assumes "optind g \<le> length xs"
  shows "\<exists>ys f. move_nonopts (vec xs k) g = (vec ys k, f) \<and> length ys = length xs"
  using exchange_vec [OF assms, of k "min (first_nonopt g) (optind g)" "min (last_nonopt g) (optind g)"]
  by (auto simp: move_nonopts_def Let_def)

lemma enter_element_vec:
  assumes "i \<le> length xs"
  shows "\<exists>more ys g'. enter_element (length xs) (vec xs k) f i g = Some (more, vec ys k, g') \<and> length ys = length xs"
proof (cases "i = length xs")
  case False
  with assms have "deref (vec xs k) i = Some (xs ! i)" "i + 1 \<le> length xs" by (simp_all add: deref_vec)
  with exchange_vec [OF this(2), of k f i] False show ?thesis
    by (auto simp: enter_element_def Let_def)
qed (auto simp: enter_element_def)

lemma next_element_vec:
  assumes "optind g \<le> length xs"
  shows "\<exists>more ys g'. next_element (length xs) (vec xs k) g = Some (more, vec ys k, g') \<and> length ys = length xs"
proof -
  from move_nonopts_vec [OF assms] obtain ys f where
    m: "move_nonopts (vec xs k) g = (vec ys k, f)" "length ys = length xs" by blast
  from skip_nonopts_vec [of "optind g" ys k] assms m(2) obtain i where
    i: "skip_nonopts (length xs) (vec ys k) (optind g) = Some i" by auto
  from skip_nonopts_result [OF i] assms m(2) have "i \<le> length ys" by simp
  from enter_element_vec [OF this, of k f g] m i show ?thesis
    by (auto simp: next_element_def)
qed

lemma next_char_vec:
  assumes "nextchar g \<noteq> []" "optind g < length xs" "optind g \<noteq> 0"
  shows "\<exists>c optarg g'. next_char o' (length xs) (vec xs k) g = Some (Opt c, optarg, g') \<and>
    scannable xs g' \<and> 1 \<le> optind g' \<and>
    (optarg \<noteq> None \<longrightarrow> 2 \<le> optind g' \<and> nextchar g' = []) \<and>
    (opt_kind o' c = Some 1 \<and> c \<noteq> CHR ''?'' \<longrightarrow> optarg \<noteq> None)"
proof -
  from assms(1) obtain c rest where n: "nextchar g = c # rest" by (cases "nextchar g") auto
  show ?thesis
    using assms(2,3) arg_at_vec [of "optind g + 1" xs k]
    by (auto simp: next_char_def n Let_def scannable_def split: option.split)
qed

lemma getopt_vec:
  assumes "scannable xs g" "1 \<le> length xs"
  shows "\<exists>r optarg ys g'. getopt o' (length xs) (vec xs k) g = Some (r, optarg, vec ys k, g') \<and>
    length ys = length xs \<and>
    (\<forall>c. r = Opt c \<longrightarrow> scannable ys g' \<and> 1 \<le> optind g' \<and>
      (optarg \<noteq> None \<longrightarrow> 2 \<le> optind g' \<and> nextchar g' = []) \<and>
      (opt_kind o' c = Some 1 \<and> c \<noteq> CHR ''?'' \<longrightarrow> optarg \<noteq> None))"
proof -
  let ?g0 = "restart g"
  have g0: "optind ?g0 \<le> length xs" "optind ?g0 \<noteq> 0" "nextchar ?g0 \<noteq> [] \<longrightarrow> optind ?g0 < length xs"
    using assms by (auto simp: restart_def getopt_initialize_def scannable_def)
  show ?thesis
  proof (cases "nextchar ?g0 = []")
    case False
    with g0 next_char_vec [OF False, of xs o' k] assms(2) show ?thesis
      by (auto simp: getopt_def fetch_element_def)
  next
    case True
    from next_element_vec [OF g0(1), of k] obtain more ys g1 where
      el: "next_element (length xs) (vec xs k) ?g0 = Some (more, vec ys k, g1)" "length ys = length xs" by blast
    show ?thesis
    proof (cases more)
      case False
      with el True assms(2) show ?thesis by (auto simp: getopt_def fetch_element_def)
    next
      case more: True
      with el(1) have "next_element (length xs) (vec xs k) ?g0 = Some (True, vec ys k, g1)" by simp
      from next_element_found [OF this] g0 el(2) have
        "nextchar g1 \<noteq> []" "optind g1 < length ys" "optind g1 \<noteq> 0" by auto
      from next_char_vec [OF this, of o' k] el True more assms(2) show ?thesis
        by (auto simp: getopt_def fetch_element_def)
    qed
  qed
qed

end
