(* ===== verification/Cmdline.thy ===== *)
theory Cmdline
  imports C_Getopt C_Printf
begin

section \<open>The command line: \<open>src/src/fuseadf.c\<close>\<close>

text \<open>
  \<open>parse_args\<close> scans the command line with \<open>getopt\<close>, takes out of \<open>argv\<close> what is meant for
  fuseadf, and leaves the rest for FUSE. The lemmas: whatever the command line, the scan ends
  and stays inside \<open>argv\<close>, and on command lines of separate words in the documented order it
  yields the options that were given.
\<close>

subsection \<open>Changing the argument vector\<close>

definition put_arg :: "args \<Rightarrow> nat \<Rightarrow> string option \<Rightarrow> args option" where
  "put_arg argv i p = (if i < length argv then Some (argv[i := p]) else None)"

text \<open>The loop \<open>for ( i = index ; i < stop ; i++ ) argv [ i ] = argv [ i + num ]\<close>.\<close>

function move_down :: "args \<Rightarrow> nat \<Rightarrow> nat \<Rightarrow> nat \<Rightarrow> args option" where
  "move_down argv i stop num =
     (if i < stop then do {
        p \<leftarrow> arg_at argv (i + num);
        argv' \<leftarrow> put_arg argv i p;
        move_down argv' (i + 1) stop num
      }
      else Some argv)"
  by pat_completeness auto
termination
  by (relation "measure (\<lambda>(argv, i, stop, num). stop - i)") auto

declare move_down.simps [simp del]

text \<open>The loop \<open>for ( i ; i < stop ; i++ ) argv [ i ] = NULL\<close>.\<close>

function clear_args :: "args \<Rightarrow> nat \<Rightarrow> nat \<Rightarrow> args option" where
  "clear_args argv i stop =
     (if i < stop then do { argv' \<leftarrow> put_arg argv i None; clear_args argv' (i + 1) stop }
      else Some argv)"
  by pat_completeness auto
termination
  by (relation "measure (\<lambda>(argv, i, stop). stop - i)") auto

declare clear_args.simps [simp del]

text \<open>Dropping more arguments than there are would write in front of the array.\<close>

definition drop_arg :: "nat \<Rightarrow> args \<Rightarrow> nat \<Rightarrow> (nat \<times> args) option" where
  "drop_arg argc argv index =
     (if argc < 1 then None
      else do {
        argv1 \<leftarrow> move_down argv index (argc - 1) 1;
        argv2 \<leftarrow> put_arg argv1 (argc - 1) None;
        Some (argc - 1, argv2)
      })"

definition drop_args :: "nat \<Rightarrow> args \<Rightarrow> nat \<Rightarrow> nat \<Rightarrow> (nat \<times> args) option" where
  "drop_args argc argv index num =
     (if argc < num then None
      else do {
        argv1 \<leftarrow> move_down argv index (argc - num) num;
        argv2 \<leftarrow> clear_args argv1 (argc - num) argc;
        Some (argc - num, argv2)
      })"

definition add_arg :: "nat \<Rightarrow> args \<Rightarrow> string \<Rightarrow> (nat \<times> args) option" where
  "add_arg argc argv arg = do {
     argv' \<leftarrow> put_arg argv argc (Some arg);
     Some (argc + 1, argv')
   }"

subsection \<open>\<open>parse_args\<close>\<close>

record cmdline_options =
  adf_filename :: "string option"
  mount_point :: "string option"
  adf_volume :: "32 word"
  write_mode :: bool
  single_threaded_fuse_mode_set :: bool
  logging_file :: "string option"
  ignore_checksum_errors :: bool
  help_set :: bool
  version_set :: bool

definition default_options :: cmdline_options where
  "default_options =
     \<lparr>adf_filename = None, mount_point = None, adf_volume = 0, write_mode = True,
      single_threaded_fuse_mode_set = False, logging_file = None, ignore_checksum_errors = False,
      help_set = False, version_set = False\<rparr>"

definition valid_options :: string where
  "valid_options = ''p:l::o:fdshiwV''"

text \<open>\<open>printed\<close> is what \<open>parse_args\<close> has written to the standard error stream.\<close>

record scan =
  argc :: nat
  argv :: args
  scanner :: getopt_data
  options :: cmdline_options
  printed :: string

text \<open>Step \<open>optind\<close> back by \<open>num\<close> and drop that many arguments there.\<close>

definition drop_back :: "nat \<Rightarrow> scan \<Rightarrow> scan option" where
  "drop_back num s =
     (if optind (scanner s) < num then None
      else do {
        (argc', argv') \<leftarrow>
          (if num = 1 then drop_arg (argc s) (argv s) (optind (scanner s) - num)
           else drop_args (argc s) (argv s) (optind (scanner s) - num) num);
        Some (s\<lparr>argc := argc', argv := argv', scanner := (scanner s)\<lparr>optind := optind (scanner s) - num\<rparr>\<rparr>)
      })"

definition complain :: "string \<Rightarrow> vararg list \<Rightarrow> scan \<Rightarrow> scan option" where
  "complain fmt args s = do { t \<leftarrow> format fmt args; Some (s\<lparr>printed := printed s @ t\<rparr>) }"

text \<open>
  The body of the loop for an option: the value \<open>parse_args\<close> returns, or \<open>None\<close> inside to
  continue. Following a null \<open>optarg\<close> is undefined.
\<close>

definition parse_option :: "char \<Rightarrow> string option \<Rightarrow> scan \<Rightarrow> (bool option \<times> scan) option" where
  "parse_option c optarg s =
     (let opts = options s in
      if c = CHR ''p'' then
        (case optarg of
           None \<Rightarrow> None
         | Some a \<Rightarrow>
             (case strtoul a of (converted, value) \<Rightarrow>
                let s1 = s\<lparr>options := opts\<lparr>adf_volume := ucast value\<rparr>\<rparr>
                in if \<not> converted then
                     map_option (Pair (Some False)) (complain ''Incorrect partition/volume number.\<newline>'' [] s1)
                   else if adf_volume (options s1) > 10 then
                     map_option (Pair (Some False))
                       (complain ''Incorrect partition/volume number %u\<newline>'' [Int32 (adf_volume (options s1))] s1)
                   else map_option (Pair None) (drop_back 2 s1)))
      else if c = CHR ''l'' then
        (case optarg of
           Some a \<Rightarrow> map_option (Pair None) (drop_back 2 (s\<lparr>options := opts\<lparr>logging_file := Some a\<rparr>\<rparr>))
         | None \<Rightarrow>
             map_option (Pair None) (drop_back 1 (s\<lparr>options := opts\<lparr>logging_file := Some ''fuseadf.log''\<rparr>\<rparr>)))
      else if c = CHR ''i'' then
        map_option (Pair None) (drop_back 1 (s\<lparr>options := opts\<lparr>ignore_checksum_errors := True\<rparr>\<rparr>))
      else if c = CHR ''s'' then
        Some (None, s\<lparr>options := opts\<lparr>single_threaded_fuse_mode_set := True\<rparr>\<rparr>)
      else if c = CHR ''d'' \<or> c = CHR ''f'' then Some (None, s)
      else if c = CHR ''o'' then
        (case optarg of
           None \<Rightarrow> None
         | Some a \<Rightarrow> Some (None, if a = ''ro'' then s\<lparr>options := opts\<lparr>write_mode := False\<rparr>\<rparr> else s))
      else if c = CHR ''h'' then
        map_option (Pair (Some True)) (drop_back 1 (s\<lparr>options := opts\<lparr>help_set := True\<rparr>\<rparr>))
      else if c = CHR ''V'' then
        map_option (Pair (Some True)) (drop_back 1 (s\<lparr>options := opts\<lparr>version_set := True\<rparr>\<rparr>))
      else Some (Some False, s))"

text \<open>One round of the loop: whether it goes on, and if not, what was returned in it.\<close>

definition parse_step :: "scan \<Rightarrow> (bool \<times> bool option \<times> scan) option" where
  "parse_step s = do {
     (r, optarg, argv', g) \<leftarrow> getopt valid_options (argc s) (argv s) (scanner s);
     let s1 = s\<lparr>argv := argv', scanner := g\<rparr>;
     case r of
       End \<Rightarrow> Some (False, None, s1)
     | Opt c \<Rightarrow> do {
         (result, s2) \<leftarrow> parse_option c optarg s1;
         Some (result = None, result, s2)
       }
   }"

subsection \<open>Dropping arguments\<close>

lemma move_down_result:
  assumes "i \<le> stop" "stop + num \<le> length a"
  shows "move_down a i stop num = Some (take i a @ take (stop - i) (drop (i + num) a) @ drop stop a)"
  using assms
proof (induction "stop - i" arbitrary: a i)
  case 0
  then show ?case by (subst move_down.simps) simp
next
  case (Suc n)
  let ?a = "a[i := a ! (i + num)]"
  from Suc.hyps(2) Suc.prems have lt: "i < stop" "i + num < length a" "i < length a" "n = stop - (i + 1)" by auto
  from Suc.hyps(1) [of "i + 1" ?a] Suc.prems lt have
    IH: "move_down ?a (i + 1) stop num = Some (take (i + 1) ?a @ take (stop - (i + 1)) (drop (i + 1 + num) ?a) @ drop stop ?a)"
    by simp
  have "take (i + 1) ?a = take i a @ [a ! (i + num)]"
    using lt by (simp add: take_Suc_conv_app_nth)
  moreover have "a ! (i + num) # take (stop - (i + 1)) (drop (i + 1 + num) a) = take (stop - i) (drop (i + num) a)"
    using lt by (simp add: Cons_nth_drop_Suc [symmetric, of "i + num"] take_Cons' Suc_diff_Suc)
  ultimately have "move_down ?a (i + 1) stop num = Some (take i a @ take (stop - i) (drop (i + num) a) @ drop stop a)"
    using IH lt by simp
  with lt show ?case by (subst move_down.simps) (simp add: arg_at_def put_arg_def)
qed

lemma clear_args_result:
  assumes "i \<le> stop" "stop \<le> length a"
  shows "clear_args a i stop = Some (take i a @ replicate (stop - i) None @ drop stop a)"
  using assms
proof (induction "stop - i" arbitrary: a i)
  case 0
  then show ?case by (subst clear_args.simps) simp
next
  case (Suc n)
  let ?a = "a[i := None]"
  from Suc.hyps(2) Suc.prems have lt: "i < stop" "i < length a" "n = stop - (i + 1)" "stop - i = Suc (stop - (i + 1))" by auto
  from Suc.hyps(1) [of "i + 1" ?a] Suc.prems lt have
    "clear_args ?a (i + 1) stop = Some (take (i + 1) ?a @ replicate (stop - (i + 1)) None @ drop stop ?a)"
    by simp
  moreover have "take (i + 1) ?a = take i a @ [None]"
    using lt by (simp add: take_Suc_conv_app_nth)
  ultimately show ?case using lt by (subst clear_args.simps) (simp add: put_arg_def)
qed

lemma vec_split: "n \<le> length xs \<Longrightarrow> map Some (take n xs) @ replicate (length xs - n + k) None = vec (take n xs) (length xs - n + k)"
  by (simp add: vec_def)

lemma drop_args_vec:
  assumes "i + num \<le> length xs"
  shows "drop_args (length xs) (vec xs k) i num =
    Some (length xs - num, vec (take i xs @ drop (i + num) xs) (k + num))"
proof -
  let ?n = "length xs - num"
  let ?a = "vec xs k"
  have "i \<le> ?n" "?n + num \<le> length ?a" "i \<le> length xs" "i + num \<le> length xs" using assms by auto
  note move = move_down_result [OF this(1,2)]
  have kept: "take i ?a @ take (?n - i) (drop (i + num) ?a) = map Some (take i xs @ drop (i + num) xs)"
    using assms by (simp add: take_vec drop_vec)
  have len: "length (map Some (take i xs @ drop (i + num) xs)) = ?n" using assms by simp
  have "take ?n (map Some (take i xs @ drop (i + num) xs) @ drop ?n ?a) = map Some (take i xs @ drop (i + num) xs)"
    using len by simp
  moreover have "drop (length xs) (map Some (take i xs @ drop (i + num) xs) @ drop ?n ?a) = replicate k None"
    using len assms by (simp add: drop_vec vec_def)
  moreover have "clear_args (map Some (take i xs @ drop (i + num) xs) @ drop ?n ?a) ?n (length xs) =
      Some (take ?n (map Some (take i xs @ drop (i + num) xs) @ drop ?n ?a) @ replicate (length xs - ?n) None @
        drop (length xs) (map Some (take i xs @ drop (i + num) xs) @ drop ?n ?a))"
    by (rule clear_args_result) (use len assms in auto)
  ultimately have "clear_args (map Some (take i xs @ drop (i + num) xs) @ drop ?n ?a) ?n (length xs) =
      Some (vec (take i xs @ drop (i + num) xs) (k + num))"
    using assms by (simp add: vec_def replicate_add [symmetric] add.commute)
  with move kept assms show ?thesis by (simp add: drop_args_def)
qed

lemma drop_arg_eq:
  assumes "i < n" "n \<le> length a"
  shows "drop_arg n a i = drop_args n a i 1"
proof -
  have "clear_args b (n - 1) n = put_arg b (n - 1) None" if "length b = length a" for b
    using that assms by (subst clear_args.simps, subst clear_args.simps) (simp add: put_arg_def)
  with assms show ?thesis by (simp add: drop_arg_def drop_args_def move_down_result)
qed

lemma drop_arg_vec:
  "i < length xs \<Longrightarrow> drop_arg (length xs) (vec xs k) i =
    Some (length xs - 1, vec (take i xs @ drop (i + 1) xs) (k + 1))"
  using drop_args_vec [of i 1 xs k] by (simp add: drop_arg_eq)

lemma add_arg_vec: "1 \<le> k \<Longrightarrow> add_arg (length xs) (vec xs k) a = Some (length xs + 1, vec (xs @ [a]) (k - 1))"
  by (cases k) (auto simp: add_arg_def put_arg_def vec_def list_update_append)

lemma drop_back_vec:
  assumes "argc s = length xs" "argv s = vec xs k" "num \<in> {1, 2}"
    and "num \<le> optind (scanner s)" "optind (scanner s) \<le> length xs"
  shows "drop_back num s =
    (let i = optind (scanner s) - num; ys = take i xs @ drop (i + num) xs
     in Some (s\<lparr>argc := length ys, argv := vec ys (k + num), scanner := (scanner s)\<lparr>optind := i\<rparr>\<rparr>))"
proof -
  from assms(4) obtain i where i: "optind (scanner s) = num + i" by (auto simp: le_iff_add)
  with assms drop_arg_vec [of i xs k] drop_args_vec [of i 2 xs k] show ?thesis
    by (auto simp: drop_back_def Let_def)
qed

subsection \<open>The loop\<close>

lemma drop_back_less: "drop_back num s = Some s' \<Longrightarrow> 1 \<le> num \<Longrightarrow> argc s' < argc s"
  by (auto simp: drop_back_def drop_arg_def drop_args_def bind_Some_iff split: if_split_asm)

lemma parse_option_continues:
  assumes "parse_option c optarg s = Some (None, s')"
  shows "argc s' < argc s \<or> argc s' = argc s \<and> argv s' = argv s \<and> scanner s' = scanner s"
  using assms
  by (auto simp: parse_option_def Let_def split: if_split_asm option.split_asm prod.split_asm
      dest!: drop_back_less)

lemma parse_step_progress:
  assumes "parse_step s = Some (True, result, s')"
  shows "argc s' < argc s \<or> argc s' = argc s \<and> remaining (argv s') (scanner s') < remaining (argv s) (scanner s)"
proof -
  from assms obtain r optarg argv' g where
    get: "getopt valid_options (argc s) (argv s) (scanner s) = Some (r, optarg, argv', g)"
    by (auto simp: parse_step_def bind_Some_iff)
  show ?thesis
  proof (cases r)
    case End
    with assms get show ?thesis by (simp add: parse_step_def)
  next
    case (Opt c)
    with assms get have "parse_option c optarg (s\<lparr>argv := argv', scanner := g\<rparr>) = Some (None, s')"
      by (auto simp: parse_step_def bind_Some_iff)
    from parse_option_continues [OF this] getopt_progress [of _ _ _ _ c] get Opt show ?thesis by auto
  qed
qed

function parse_loop :: "scan \<Rightarrow> (bool option \<times> scan) option" where
  "parse_loop s = do {
     (more, result, s') \<leftarrow> parse_step s;
     if more then parse_loop s' else Some (result, s')
   }"
  by pat_completeness auto
termination
  by (relation "measures [argc, \<lambda>s. remaining (argv s) (scanner s)]") (auto dest: parse_step_progress)

declare parse_loop.simps [simp del]

definition parse_args ::
  "(string \<Rightarrow> string option) \<Rightarrow> nat \<Rightarrow> args \<Rightarrow> (bool \<times> scan) option" where
  "parse_args realpath n a = do {
     (result, s) \<leftarrow> parse_loop
       \<lparr>argc = n, argv = a, scanner = getopt_initialize, options = default_options, printed = []\<rparr>;
     case result of
       Some b \<Rightarrow> Some (b, s)
     | None \<Rightarrow>
         if optind (scanner s) + 2 \<noteq> argc s then Some (False, s)
         else do {
           file \<leftarrow> arg_at (argv s) (argc s - 2);
           mnt \<leftarrow> arg_at (argv s) (argc s - 1);
           (argc', argv') \<leftarrow> drop_arg (argc s) (argv s) (argc s - 2);
           Some (True, s\<lparr>argc := argc', argv := argv',
                         options := (options s)\<lparr>adf_filename := file, mount_point := Option.bind mnt realpath\<rparr>\<rparr>)
         }
   }"

subsection \<open>Every command line\<close>

text \<open>
  The invariant of the loop: \<open>argv\<close> holds strings, then null pointers, at least one; the
  scanner stands inside the strings; and the partition is at most 10.
\<close>

definition scan_ok :: "scan \<Rightarrow> bool" where
  "scan_ok s \<longleftrightarrow>
     (\<exists>xs k. argc s = length xs \<and> argv s = vec xs k \<and> 1 \<le> k \<and> scannable xs (scanner s)) \<and>
     adf_volume (options s) \<le> 10"

definition returned_ok :: "scan \<Rightarrow> bool" where
  "returned_ok s \<longleftrightarrow> (\<exists>xs k. argc s = length xs \<and> argv s = vec xs k \<and> 1 \<le> k)"

lemma scan_okI:
  "argc s = length xs \<Longrightarrow> argv s = vec xs k \<Longrightarrow> 1 \<le> k \<Longrightarrow> scannable xs (scanner s) \<Longrightarrow>
   adf_volume (options s) \<le> 10 \<Longrightarrow> scan_ok s"
  by (auto simp: scan_ok_def)

lemma returned_okI: "argc s = length xs \<Longrightarrow> argv s = vec xs k \<Longrightarrow> 1 \<le> k \<Longrightarrow> returned_ok s"
  by (auto simp: returned_ok_def)

lemma scan_ok_drop_back:
  assumes "argc s = length xs" "argv s = vec xs k" "1 \<le> k" "scannable xs (scanner s)"
    and "num \<in> {1, 2}" "num \<le> optind (scanner s)" "num = 2 \<longrightarrow> nextchar (scanner s) = []"
  shows "\<exists>s'. drop_back num s = Some s' \<and> options s' = options s \<and>
    (adf_volume (options s) \<le> 10 \<longrightarrow> scan_ok s') \<and> returned_ok s'"
proof -
  let ?i = "optind (scanner s) - num"
  let ?ys = "take ?i xs @ drop (?i + num) xs"
  have le: "optind (scanner s) \<le> length xs" using assms(4) by (simp add: scannable_def)
  have "drop_back num s =
      Some (s\<lparr>argc := length ?ys, argv := vec ?ys (k + num), scanner := (scanner s)\<lparr>optind := ?i\<rparr>\<rparr>)"
    using drop_back_vec [OF assms(1,2,5,6) le] by (simp add: Let_def)
  moreover have "scannable ?ys ((scanner s)\<lparr>optind := ?i\<rparr>)"
    using assms(4-7) le by (auto simp: scannable_def)
  moreover have "1 \<le> k + num" using assms(3) by simp
  ultimately show ?thesis
    by (auto intro!: scan_okI [of _ ?ys "k + num"] returned_okI [of _ ?ys "k + num"] simp del: drop_append take_append)
qed

lemma complaints:
  "complain ''Incorrect partition/volume number.\<newline>'' [] s =
     Some (s\<lparr>printed := printed s @ ''Incorrect partition/volume number.\<newline>''\<rparr>)"
  "complain ''Incorrect partition/volume number %u\<newline>'' [Int32 n] s =
     Some (s\<lparr>printed := printed s @ ''Incorrect partition/volume number '' @ unsigned_text False 0 10 (unat n) @ ''\<newline>''\<rparr>)"
  by (simp_all add: complain_def format_eval)

lemma parse_option_simps:
  "parse_option (CHR ''p'') (Some a) s =
     (let n = ucast (snd (strtoul a)); s1 = s\<lparr>options := (options s)\<lparr>adf_volume := n\<rparr>\<rparr>
      in if \<not> fst (strtoul a)
         then Some (Some False, s1\<lparr>printed := printed s @ ''Incorrect partition/volume number.\<newline>''\<rparr>)
         else if n > 10
         then Some (Some False,
           s1\<lparr>printed := printed s @ ''Incorrect partition/volume number '' @ unsigned_text False 0 10 (unat n) @ ''\<newline>''\<rparr>)
         else map_option (Pair None) (drop_back 2 s1))"
  "parse_option (CHR ''l'') (Some a) s =
     map_option (Pair None) (drop_back 2 (s\<lparr>options := (options s)\<lparr>logging_file := Some a\<rparr>\<rparr>))"
  "parse_option (CHR ''l'') None s =
     map_option (Pair None) (drop_back 1 (s\<lparr>options := (options s)\<lparr>logging_file := Some ''fuseadf.log''\<rparr>\<rparr>))"
  "parse_option (CHR ''i'') optarg s =
     map_option (Pair None) (drop_back 1 (s\<lparr>options := (options s)\<lparr>ignore_checksum_errors := True\<rparr>\<rparr>))"
  "parse_option (CHR ''s'') optarg s =
     Some (None, s\<lparr>options := (options s)\<lparr>single_threaded_fuse_mode_set := True\<rparr>\<rparr>)"
  "parse_option (CHR ''d'') optarg s = Some (None, s)"
  "parse_option (CHR ''f'') optarg s = Some (None, s)"
  "parse_option (CHR ''o'') (Some a) s =
     Some (None, if a = ''ro'' then s\<lparr>options := (options s)\<lparr>write_mode := False\<rparr>\<rparr> else s)"
  "parse_option (CHR ''h'') optarg s =
     map_option (Pair (Some True)) (drop_back 1 (s\<lparr>options := (options s)\<lparr>help_set := True\<rparr>\<rparr>))"
  "parse_option (CHR ''V'') optarg s =
     map_option (Pair (Some True)) (drop_back 1 (s\<lparr>options := (options s)\<lparr>version_set := True\<rparr>\<rparr>))"
  by (simp_all add: parse_option_def Let_def split_beta complaints)

lemma parse_option_other:
  "c \<notin> set ''plisdfohV'' \<Longrightarrow> parse_option c optarg s = Some (Some False, s)"
  by (simp add: parse_option_def Let_def)

text \<open>The outcome of an option, as the loop needs it.\<close>

definition outcome_ok :: "bool option \<Rightarrow> scan \<Rightarrow> bool" where
  "outcome_ok result s \<longleftrightarrow> returned_ok s \<and>
     (result \<noteq> Some False \<longrightarrow> adf_volume (options s) \<le> 10) \<and>
     (result = Some True \<longrightarrow> help_set (options s) \<or> version_set (options s))"

lemma scan_options_ok:
  assumes "argc s = length xs" "argv s = vec xs k" "1 \<le> k" "scannable xs (scanner s)"
  shows "returned_ok (s\<lparr>options := os\<rparr>)" "returned_ok (s\<lparr>options := os, printed := t\<rparr>)"
    "adf_volume os \<le> 10 \<Longrightarrow> scan_ok (s\<lparr>options := os\<rparr>)"
  using assms by (auto intro: returned_okI scan_okI)

lemma parse_option_ok:
  assumes "argc s = length xs" "argv s = vec xs k" "1 \<le> k" "scannable xs (scanner s)" "1 \<le> optind (scanner s)"
    and "optarg \<noteq> None \<longrightarrow> 2 \<le> optind (scanner s) \<and> nextchar (scanner s) = []"
    and "c = CHR ''p'' \<or> c = CHR ''o'' \<longrightarrow> optarg \<noteq> None"
    and "adf_volume (options s) \<le> 10"
  shows "\<exists>result s'. parse_option c optarg s = Some (result, s') \<and> outcome_ok result s' \<and>
    (result = None \<longrightarrow> scan_ok s')"
proof -
  have drop: "\<exists>s'. drop_back num (s\<lparr>options := os\<rparr>) = Some s' \<and> options s' = os \<and>
      scan_ok s' \<and> returned_ok s'"
    if "num = 1 \<or> num = 2 \<and> optarg \<noteq> None" "adf_volume os \<le> 10" for num os
    using scan_ok_drop_back [of "s\<lparr>options := os\<rparr>" xs k num] assms that by auto
  note ok = scan_options_ok [OF assms(1-4)]
  note keep = ok(1) [of "options s", simplified] ok(3) [of "options s", simplified]
  consider (p) a where "c = CHR ''p''" "optarg = Some a" | (l) a where "c = CHR ''l''" "optarg = Some a"
    | (l0) "c = CHR ''l''" "optarg = None" | (i) "c = CHR ''i''"
    | (stays) a where "c = CHR ''s'' \<or> c = CHR ''d'' \<or> c = CHR ''f'' \<or> c = CHR ''o'' \<and> optarg = Some a"
    | (h) "c = CHR ''h''" | (V) "c = CHR ''V''" | (other) "c \<notin> set ''plisdfohV''"
    using assms(7) by (cases optarg) auto
  then show ?thesis
  proof cases
    case p
    with drop [of 2 "(options s)\<lparr>adf_volume := ucast (snd (strtoul a))\<rparr>"]
      ok(2) [where os = "(options s)\<lparr>adf_volume := ucast (snd (strtoul a))\<rparr>"] show ?thesis
      by (cases "ucast (snd (strtoul a)) \<le> (10 :: 32 word)")
        (auto simp: parse_option_simps Let_def outcome_ok_def not_less not_le)
  next
    case l
    with drop [of 2 "(options s)\<lparr>logging_file := Some a\<rparr>"] assms(8) show ?thesis
      by (auto simp: parse_option_simps outcome_ok_def)
  next
    case l0
    with drop [of 1 "(options s)\<lparr>logging_file := Some ''fuseadf.log''\<rparr>"] assms(8) show ?thesis
      by (auto simp: parse_option_simps outcome_ok_def)
  next
    case i
    with drop [of 1 "(options s)\<lparr>ignore_checksum_errors := True\<rparr>"] assms(8) show ?thesis
      by (auto simp: parse_option_simps outcome_ok_def)
  next
    case h
    with drop [of 1 "(options s)\<lparr>help_set := True\<rparr>"] assms(8) show ?thesis
      by (auto simp: parse_option_simps outcome_ok_def)
  next
    case V
    with drop [of 1 "(options s)\<lparr>version_set := True\<rparr>"] assms(8) show ?thesis
      by (auto simp: parse_option_simps outcome_ok_def)
  next
    case stays
    with keep ok assms(8) show ?thesis by (auto simp: parse_option_simps outcome_ok_def)
  next
    case other
    with keep show ?thesis by (auto simp: parse_option_other outcome_ok_def)
  qed
qed

lemma parse_step_ok:
  assumes "scan_ok s" "1 \<le> argc s"
  shows "\<exists>more result s'. parse_step s = Some (more, result, s') \<and> outcome_ok result s' \<and>
    (more \<longrightarrow> result = None \<and> scan_ok s')"
proof -
  from assms(1) obtain xs k where s: "argc s = length xs" "argv s = vec xs k" "1 \<le> k" "scannable xs (scanner s)"
    and vol: "adf_volume (options s) \<le> 10" by (auto simp: scan_ok_def)
  from getopt_vec [OF s(4), of valid_options k] assms(2) s(1) obtain r optarg ys g where
    get: "getopt valid_options (length xs) (vec xs k) (scanner s) = Some (r, optarg, vec ys k, g)" "length ys = length xs"
    and opt: "\<And>c. r = Opt c \<Longrightarrow> scannable ys g \<and> 1 \<le> optind g \<and>
      (optarg \<noteq> None \<longrightarrow> 2 \<le> optind g \<and> nextchar g = []) \<and>
      (opt_kind valid_options c = Some 1 \<and> c \<noteq> CHR ''?'' \<longrightarrow> optarg \<noteq> None)" by auto
  let ?s = "s\<lparr>argv := vec ys k, scanner := g\<rparr>"
  show ?thesis
  proof (cases r)
    case End
    have "returned_ok ?s" by (rule returned_okI [of _ ys k]) (use get(2) s in simp_all)
    with End get s vol show ?thesis by (auto simp: parse_step_def outcome_ok_def)
  next
    case (Opt c)
    have "opt_kind valid_options (CHR ''p'') = Some 1" "opt_kind valid_options (CHR ''o'') = Some 1"
      by (simp_all add: opt_kind_def valid_options_def)
    with opt [OF Opt] have arg: "c = CHR ''p'' \<or> c = CHR ''o'' \<longrightarrow> optarg \<noteq> None" by auto
    from parse_option_ok [of ?s ys k optarg c] opt [OF Opt] arg get(2) s vol obtain result s' where
      "parse_option c optarg ?s = Some (result, s')" "outcome_ok result s'" "result = None \<longrightarrow> scan_ok s'" by auto
    with get(1) s Opt show ?thesis by (auto simp: parse_step_def)
  qed
qed

lemma parse_step_empty: "argc s = 0 \<Longrightarrow> parse_step s = Some (False, None, s)"
  by (simp add: parse_step_def getopt_def)

lemma parse_loop_ok:
  assumes "scan_ok s"
  shows "\<exists>result s'. parse_loop s = Some (result, s') \<and> outcome_ok result s'"
  using assms
proof (induction s rule: parse_loop.induct)
  case (1 s)
  show ?case
  proof (cases "argc s = 0")
    case True
    with parse_step_empty [OF this] 1(2) show ?thesis
      by (subst parse_loop.simps) (auto simp: scan_ok_def outcome_ok_def intro: returned_okI)
  next
    case False
    with parse_step_ok [OF 1(2)] obtain more result s' where
      st: "parse_step s = Some (more, result, s')" "outcome_ok result s'" "more \<longrightarrow> scan_ok s'" by auto
    show ?thesis
    proof (cases more)
      case True
      with 1(1) [OF st(1) refl refl True] st show ?thesis by (subst parse_loop.simps) simp
    next
      case False
      with st show ?thesis by (subst parse_loop.simps) simp
    qed
  qed
qed

lemma parse_args_ok:
  "\<exists>b s ys k. parse_args realpath (length xs) (vec xs 1) = Some (b, s) \<and>
    argc s = length ys \<and> argv s = vec ys k \<and> 1 \<le> k \<and>
    (b \<longrightarrow> adf_volume (options s) \<le> 10 \<and>
      (\<not> help_set (options s) \<and> \<not> version_set (options s) \<longrightarrow> 2 \<le> k \<and> adf_filename (options s) \<noteq> None))"
proof -
  let ?s = "\<lparr>argc = length xs, argv = vec xs 1, scanner = getopt_initialize, options = default_options, printed = []\<rparr>"
  show ?thesis
  proof (cases xs)
    case Nil
    have "parse_loop ?s = Some (None, ?s)"
      by (subst parse_loop.simps) (simp add: parse_step_empty Nil)
    then show ?thesis
      by (auto simp: parse_args_def getopt_initialize_def Nil intro!: exI [of _ "[]"] exI [of _ 1])
  next
    case (Cons x xs')
    then have "scan_ok ?s"
      by (auto simp: scannable_def getopt_initialize_def default_options_def intro!: scan_okI [of _ xs 1])
    from parse_loop_ok [OF this] obtain result s where
      loop: "parse_loop ?s = Some (result, s)" and out: "outcome_ok result s" by blast
    from out obtain ys k where s: "argc s = length ys" "argv s = vec ys k" "1 \<le> k"
      unfolding outcome_ok_def returned_ok_def by blast
    show ?thesis
    proof (cases "result = None \<and> optind (scanner s) + 2 = length ys")
      case False
      then have "\<exists>b. parse_args realpath (length xs) (vec xs 1) = Some (b, s) \<and> (b \<longrightarrow> result = Some True)"
        using loop s by (cases result) (auto simp: parse_args_def)
      with out s show ?thesis unfolding outcome_ok_def by (metis option.inject)
    next
      case True
      let ?n = "length ys"
      from True have "2 \<le> ?n" by simp
      then have n: "2 \<le> ?n" "?n - 1 = Suc (?n - 2)" by arith+
      let ?zs = "take (?n - 2) ys @ drop (?n - 1) ys"
      have drop: "drop_arg ?n (vec ys k) (?n - 2) = Some (?n - 1, vec ?zs (k + 1))"
        using drop_arg_vec [of "?n - 2" ys k] n by (simp add: Suc_diff_Suc numeral_2_eq_2)
      have "arg_at (vec ys k) (?n - 2) = Some (Some (ys ! (?n - 2)))"
        "arg_at (vec ys k) (?n - 1) = Some (Some (ys ! (?n - 1)))"
        using n by (simp_all add: arg_at_vec)
      then obtain t where "parse_args realpath (length xs) (vec xs 1) = Some (True, t)"
        "argc t = length ?zs" "argv t = vec ?zs (k + 1)" "adf_filename (options t) \<noteq> None"
        "adf_volume (options t) = adf_volume (options s)"
        using loop s True drop n by (simp add: parse_args_def)
      moreover have "adf_volume (options s) \<le> 10" "2 \<le> k + 1"
        using out True s(3) by (simp_all add: outcome_ok_def)
      ultimately show ?thesis by (metis le_add2 add.commute)
    qed
  qed
qed

text \<open>Something is printed only when the command line is refused, and then no image is named.\<close>

lemma drop_back_keeps: "drop_back num s = Some s' \<Longrightarrow> printed s' = printed s \<and> options s' = options s"
  by (auto simp: drop_back_def bind_Some_iff split: if_split_asm)

lemma parse_option_keeps:
  "parse_option c optarg s = Some (result, s') \<Longrightarrow>
    adf_filename (options s') = adf_filename (options s) \<and> (result \<noteq> Some False \<longrightarrow> printed s' = printed s)"
  by (auto simp: parse_option_def Let_def complain_def bind_Some_iff split: if_split_asm option.split_asm prod.split_asm
      dest!: drop_back_keeps)

lemma parse_step_keeps:
  "parse_step s = Some (goes_on, result, s') \<Longrightarrow>
    adf_filename (options s') = adf_filename (options s) \<and> (result \<noteq> Some False \<longrightarrow> printed s' = printed s) \<and>
    (goes_on \<longrightarrow> result = None)"
proof -
  assume st: "parse_step s = Some (goes_on, result, s')"
  then obtain r optarg argv' g where
    get: "getopt valid_options (argc s) (argv s) (scanner s) = Some (r, optarg, argv', g)"
    by (auto simp: parse_step_def bind_Some_iff)
  show ?thesis
  proof (cases r)
    case End
    with st get show ?thesis by (auto simp: parse_step_def)
  next
    case (Opt c)
    with st get show ?thesis by (auto simp: parse_step_def bind_Some_iff dest!: parse_option_keeps)
  qed
qed

lemma parse_loop_keeps:
  "parse_loop s = Some (result, s') \<Longrightarrow>
    adf_filename (options s') = adf_filename (options s) \<and> (result \<noteq> Some False \<longrightarrow> printed s' = printed s)"
proof (induction s rule: parse_loop.induct)
  case (1 s)
  from 1(2) obtain more r s1 where st: "parse_step s = Some (more, r, s1)"
    and rest: "(if more then parse_loop s1 else Some (r, s1)) = Some (result, s')"
    by (subst (asm) parse_loop.simps) (auto simp: bind_Some_iff)
  show ?case
  proof (cases more)
    case True
    with 1(1) [OF st refl refl True] rest parse_step_keeps [OF st] show ?thesis by auto
  next
    case False
    with rest parse_step_keeps [OF st] show ?thesis by auto
  qed
qed

lemma parse_args_quiet:
  assumes "parse_args realpath n a = Some (ok, s)"
  shows "if ok then printed s = [] else adf_filename (options s) = None"
proof -
  from assms obtain result s1 where
    loop: "parse_loop \<lparr>argc = n, argv = a, scanner = getopt_initialize, options = default_options, printed = []\<rparr> =
      Some (result, s1)" by (auto simp: parse_args_def bind_Some_iff)
  from parse_loop_keeps [OF loop] have
    s1: "adf_filename (options s1) = None" "result \<noteq> Some False \<longrightarrow> printed s1 = []"
    by (simp_all add: default_options_def)
  show ?thesis
  proof (cases result)
    case None
    with assms loop s1 show ?thesis by (auto simp: parse_args_def bind_Some_iff split: if_split_asm)
  next
    case (Some b)
    with assms loop s1 show ?thesis by (auto simp: parse_args_def)
  qed
qed

subsection \<open>Command lines as documented\<close>

text \<open>
  \<open>cmd_opt\<close>: an option in a word of its own, with its argument, if it has one, in the word
  behind; a command line is a program name, options, the image and the mount point.
\<close>

datatype cmd_opt =
    Partition string | Log_default | Ignore_checksums
  | Single_threaded | Debug | Foreground | Mount_option string

fun words :: "cmd_opt \<Rightarrow> string list" where
  "words (Partition n) = [''-p'', n]"
| "words Log_default = [''-l'']"
| "words Ignore_checksums = [''-i'']"
| "words Single_threaded = [''-s'']"
| "words Debug = [''-d'']"
| "words Foreground = [''-f'']"
| "words (Mount_option a) = [''-o'', a]"

definition all_words :: "cmd_opt list \<Rightarrow> string list" where
  "all_words os = concat (map words os)"

fun for_fuse :: "cmd_opt \<Rightarrow> bool" where
  "for_fuse (Partition n) = False"
| "for_fuse Log_default = False"
| "for_fuse Ignore_checksums = False"
| "for_fuse o' = True"

fun valid_opt :: "cmd_opt \<Rightarrow> bool" where
  "valid_opt (Partition n) = (fst (strtoul n) \<and> (ucast (snd (strtoul n)) :: 32 word) \<le> 10)"
| "valid_opt o' = True"

fun apply_opt :: "cmd_opt \<Rightarrow> cmdline_options \<Rightarrow> cmdline_options" where
  "apply_opt (Partition n) opts = opts\<lparr>adf_volume := ucast (snd (strtoul n))\<rparr>"
| "apply_opt Log_default opts = opts\<lparr>logging_file := Some ''fuseadf.log''\<rparr>"
| "apply_opt Ignore_checksums opts = opts\<lparr>ignore_checksum_errors := True\<rparr>"
| "apply_opt Single_threaded opts = opts\<lparr>single_threaded_fuse_mode_set := True\<rparr>"
| "apply_opt (Mount_option a) opts = (if a = ''ro'' then opts\<lparr>write_mode := False\<rparr> else opts)"
| "apply_opt o' opts = opts"

text \<open>A scanner at a word that is an option, with no arguments passed over so far.\<close>

definition at_word :: "nat \<Rightarrow> getopt_data \<Rightarrow> bool" where
  "at_word i g \<longleftrightarrow> optind g = i \<and> 1 \<le> i \<and> nextchar g = [] \<and> first_nonopt g = last_nonopt g"

lemma fetch_word:
  assumes "at_word (length pre) g" "is_option w" "w \<noteq> ''--''"
  shows "fetch_element (length (pre @ w # post)) (vec (pre @ w # post) k) (restart g) =
    Some (True, vec (pre @ w # post) k,
      g\<lparr>nextchar := tl w, first_nonopt := length pre, last_nonopt := length pre\<rparr>)"
proof -
  have "deref (vec (pre @ w # post) k) (length pre) = Some w" by (simp add: deref_vec)
  moreover from this assms(2) have
    "skip_nonopts (length (pre @ w # post)) (vec (pre @ w # post) k) (length pre) = Some (length pre)"
    by (subst skip_nonopts.simps) simp
  ultimately show ?thesis
    using assms
    by (auto simp: fetch_element_def restart_def at_word_def next_element_def move_nonopts_def Let_def
        enter_element_def min_def)
qed

lemma getopt_flag:
  assumes "at_word (length pre) g" "w = [CHR ''-'', c]" "c \<noteq> CHR ''-''"
    and "opt_kind o' c = Some 0 \<or> opt_kind o' c = Some 2"
  shows "\<exists>g'. getopt o' (length (pre @ w # post)) (vec (pre @ w # post) k) g =
      Some (Opt c, None, vec (pre @ w # post) k, g') \<and> at_word (length pre + 1) g'"
proof -
  have "is_option w" "w \<noteq> ''--''" using assms(2,3) by (simp_all add: is_option_def)
  from fetch_word [OF assms(1) this, of post k] assms show ?thesis
    by (auto simp: getopt_def next_char_def at_word_def Let_def)
qed

lemma getopt_argument:
  assumes "at_word (length pre) g" "w = [CHR ''-'', c]" "c \<noteq> CHR ''-''" "opt_kind o' c = Some 1"
  shows "\<exists>g'. getopt o' (length (pre @ w # a # post)) (vec (pre @ w # a # post) k) g =
      Some (Opt c, Some a, vec (pre @ w # a # post) k, g') \<and> at_word (length pre + 2) g'"
proof -
  have "is_option w" "w \<noteq> ''--''" using assms(2,3) by (simp_all add: is_option_def)
  moreover have "arg_at (vec (pre @ w # a # post) k) (length pre + 1) = Some (Some a)"
    by (simp add: arg_at_vec nth_append)
  ultimately show ?thesis
    using fetch_word [OF assms(1), of w "a # post" k] assms
    by (auto simp: getopt_def next_char_def at_word_def Let_def)
qed

lemma valid_options_kind [simp]:
  "opt_kind valid_options (CHR ''p'') = Some 1" "opt_kind valid_options (CHR ''l'') = Some 2"
  "opt_kind valid_options (CHR ''o'') = Some 1" "opt_kind valid_options (CHR ''f'') = Some 0"
  "opt_kind valid_options (CHR ''d'') = Some 0" "opt_kind valid_options (CHR ''s'') = Some 0"
  "opt_kind valid_options (CHR ''h'') = Some 0" "opt_kind valid_options (CHR ''i'') = Some 0"
  "opt_kind valid_options (CHR ''V'') = Some 0"
  by (simp_all add: opt_kind_def valid_options_def)

lemma at_word_back: "at_word (length pre + num) g \<Longrightarrow> 1 \<le> length pre \<Longrightarrow> at_word (length pre) (g\<lparr>optind := length pre\<rparr>)"
  by (simp add: at_word_def)

lemma drop_word:
  assumes "argc s = length (pre @ ws @ post)" "argv s = vec (pre @ ws @ post) k"
    and "at_word (length pre + length ws) (scanner s)" "length ws = 1 \<or> length ws = 2"
  shows "drop_back (length ws) s =
    Some (s\<lparr>argc := length (pre @ post), argv := vec (pre @ post) (k + length ws),
            scanner := (scanner s)\<lparr>optind := length pre\<rparr>\<rparr>)"
  using drop_back_vec [OF assms(1,2), of "length ws"] assms(3,4)
  by (auto simp: at_word_def Let_def)

text \<open>How \<open>getopt\<close> reports a documented option, and what becomes of it.\<close>

fun opt_report :: "cmd_opt \<Rightarrow> char \<times> string option" where
  "opt_report (Partition n) = (CHR ''p'', Some n)"
| "opt_report Log_default = (CHR ''l'', None)"
| "opt_report Ignore_checksums = (CHR ''i'', None)"
| "opt_report Single_threaded = (CHR ''s'', None)"
| "opt_report Debug = (CHR ''d'', None)"
| "opt_report Foreground = (CHR ''f'', None)"
| "opt_report (Mount_option a) = (CHR ''o'', Some a)"

lemma length_words: "length (words w) = 1 \<or> length (words w) = 2"
  by (cases w) simp_all

lemma getopt_word:
  assumes "at_word (length pre) g"
  shows "\<exists>g'. getopt valid_options (length (pre @ words w @ post)) (vec (pre @ words w @ post) k) g =
      Some (Opt (fst (opt_report w)), snd (opt_report w), vec (pre @ words w @ post) k, g') \<and>
    at_word (length pre + length (words w)) g'"
  using getopt_flag [OF assms, where o' = valid_options and k = k and post = post]
    getopt_argument [OF assms, where o' = valid_options and k = k and post = post]
  by (cases w) simp_all

lemma parse_option_word:
  assumes "valid_opt w"
  shows "parse_option (fst (opt_report w)) (snd (opt_report w)) s =
    (let s' = s\<lparr>options := apply_opt w (options s)\<rparr>
     in if for_fuse w then Some (None, s') else map_option (Pair None) (drop_back (length (words w)) s'))"
  using assms by (cases w) (auto simp: parse_option_simps Let_def numeral_2_eq_2 simp flip: not_less)

lemma parse_step_word:
  assumes "argc s = length (pre @ words w @ post)" "argv s = vec (pre @ words w @ post) k"
    and "at_word (length pre) (scanner s)" "valid_opt w"
  shows "\<exists>s' k'. parse_step s = Some (True, None, s') \<and> k \<le> k' \<and>
    argc s' = length (pre @ (if for_fuse w then words w else []) @ post) \<and>
    argv s' = vec (pre @ (if for_fuse w then words w else []) @ post) k' \<and>
    at_word (length (pre @ (if for_fuse w then words w else []))) (scanner s') \<and>
    options s' = apply_opt w (options s)"
proof -
  from getopt_word [OF assms(3), of w post k] obtain g where
    get: "getopt valid_options (argc s) (argv s) (scanner s) =
      Some (Opt (fst (opt_report w)), snd (opt_report w), argv s, g)"
    and g: "at_word (length pre + length (words w)) g" using assms(1,2) by auto
  let ?s = "s\<lparr>scanner := g, options := apply_opt w (options s)\<rparr>"
  show ?thesis
  proof (cases "for_fuse w")
    case True
    with get g assms parse_option_word [OF assms(4)] show ?thesis
      by (auto simp: parse_step_def intro!: exI [of _ k])
  next
    case False
    have "1 \<le> length pre" using assms(3) by (simp add: at_word_def)
    with at_word_back [OF g] have before: "at_word (length pre) (g\<lparr>optind := length pre\<rparr>)" by simp
    have "drop_back (length (words w)) ?s = Some (?s\<lparr>argc := length (pre @ post),
        argv := vec (pre @ post) (k + length (words w)), scanner := g\<lparr>optind := length pre\<rparr>\<rparr>)"
      using drop_word [of ?s pre "words w" post k] g length_words [of w] assms(1,2) by simp
    with False get before parse_option_word [OF assms(4)] show ?thesis
      by (auto simp: parse_step_def intro!: exI [of _ "k + length (words w)"])
  qed
qed

text \<open>The end of the options: the words behind are none.\<close>

lemma skip_all:
  assumes "list_all (\<lambda>w. \<not> is_option w) rest" "i \<le> length rest"
  shows "skip_nonopts (length (pre @ rest)) (vec (pre @ rest) k) (length pre + i) = Some (length (pre @ rest))"
  using assms(2)
proof (induction "length rest - i" arbitrary: i)
  case 0
  then show ?case by (subst skip_nonopts.simps) simp
next
  case (Suc n)
  then have i: "i < length rest" by simp
  then have "deref (vec (pre @ rest) k) (length pre + i) = Some (rest ! i)" "\<not> is_option (rest ! i)"
    using assms(1) by (simp_all add: deref_vec nth_append list_all_length)
  with Suc.hyps(1) [of "Suc i"] Suc.hyps(2) i show ?case by (subst skip_nonopts.simps) simp
qed

lemma parse_step_end:
  assumes "argc s = length (pre @ rest)" "argv s = vec (pre @ rest) k"
    and "at_word (length pre) (scanner s)" "list_all (\<lambda>w. \<not> is_option w) rest"
  shows "\<exists>s'. parse_step s = Some (False, None, s') \<and> optind (scanner s') = length pre \<and>
    argc s' = argc s \<and> argv s' = argv s \<and> options s' = options s"
proof -
  let ?a = "vec (pre @ rest) k"
  have "skip_nonopts (length (pre @ rest)) ?a (length pre) = Some (length (pre @ rest))"
    using skip_all [OF assms(4), of 0 pre k] by simp
  moreover have "move_nonopts ?a (restart (scanner s)) = (?a, length pre)"
    using assms(3) by (auto simp: move_nonopts_def restart_def at_word_def Let_def min_def)
  ultimately show ?thesis
    using assms(1-3)
    by (auto simp: parse_step_def getopt_def fetch_element_def next_element_def enter_element_def
        at_word_def restart_def)
qed

text \<open>The options in words of their own are scanned one after the other, whatever is behind them.\<close>

lemma parse_loop_prefix:
  assumes "argc s = length (pre @ all_words os @ rest)" "argv s = vec (pre @ all_words os @ rest) k"
    and "at_word (length pre) (scanner s)" "list_all valid_opt os"
  shows "\<exists>s' k'. parse_loop s = parse_loop s' \<and> k \<le> k' \<and>
    argc s' = length (pre @ all_words (filter for_fuse os) @ rest) \<and>
    argv s' = vec (pre @ all_words (filter for_fuse os) @ rest) k' \<and>
    at_word (length (pre @ all_words (filter for_fuse os))) (scanner s') \<and>
    options s' = fold apply_opt os (options s)"
  using assms
proof (induction os arbitrary: pre s k)
  case Nil
  then show ?case by (intro exI [of _ s] exI [of _ k]) (simp add: all_words_def)
next
  case (Cons w os)
  let ?post = "all_words os @ rest"
  let ?kept = "if for_fuse w then words w else []"
  from Cons.prems(1,2,4) have s: "argc s = length (pre @ words w @ ?post)" "argv s = vec (pre @ words w @ ?post) k"
    "valid_opt w" by (simp_all add: all_words_def)
  from parse_step_word [OF s(1,2) Cons.prems(3) s(3)] obtain s1 k1 where
    step: "parse_step s = Some (True, None, s1)" "k \<le> k1"
    and s1: "argc s1 = length ((pre @ ?kept) @ ?post)" "argv s1 = vec ((pre @ ?kept) @ ?post) k1"
      "at_word (length (pre @ ?kept)) (scanner s1)" "options s1 = apply_opt w (options s)" by auto
  have split: "all_words (filter for_fuse (w # os)) = ?kept @ all_words (filter for_fuse os)"
    by (simp add: all_words_def)
  from Cons.prems(4) have "list_all valid_opt os" by simp
  from Cons.IH [OF s1(1-3) this] obtain s' k' where s':
    "parse_loop s1 = parse_loop s'" "k1 \<le> k'"
    "argc s' = length (pre @ ?kept @ all_words (filter for_fuse os) @ rest)"
    "argv s' = vec (pre @ ?kept @ all_words (filter for_fuse os) @ rest) k'"
    "at_word (length (pre @ ?kept @ all_words (filter for_fuse os))) (scanner s')"
    "options s' = fold apply_opt os (apply_opt w (options s))" using s1(4) by auto
  moreover from step(1) s'(1) have "parse_loop s = parse_loop s'"
    by (subst parse_loop.simps) simp
  ultimately show ?case unfolding split using step(2) by (intro exI [of _ s'] exI [of _ k']) simp
qed

lemma parse_loop_words:
  assumes "argc s = length (pre @ all_words os @ rest)" "argv s = vec (pre @ all_words os @ rest) k"
    and "at_word (length pre) (scanner s)" "list_all valid_opt os" "list_all (\<lambda>w. \<not> is_option w) rest"
  shows "\<exists>s' k'. parse_loop s = Some (None, s') \<and> k \<le> k' \<and>
    optind (scanner s') = length (pre @ all_words (filter for_fuse os)) \<and>
    argc s' = length (pre @ all_words (filter for_fuse os) @ rest) \<and>
    argv s' = vec (pre @ all_words (filter for_fuse os) @ rest) k' \<and>
    options s' = fold apply_opt os (options s)"
proof -
  let ?pre = "pre @ all_words (filter for_fuse os)"
  from parse_loop_prefix [OF assms(1-4)] obtain s1 k1 where
    s1: "parse_loop s = parse_loop s1" "k \<le> k1" "argc s1 = length (?pre @ rest)" "argv s1 = vec (?pre @ rest) k1"
      "at_word (length ?pre) (scanner s1)" "options s1 = fold apply_opt os (options s)" by auto
  from parse_step_end [OF s1(3-5) assms(5)] obtain s2 where
    s2: "parse_step s1 = Some (False, None, s2)" "optind (scanner s2) = length ?pre"
      "argc s2 = argc s1" "argv s2 = argv s1" "options s2 = options s1" by blast
  then have "parse_loop s1 = Some (None, s2)" by (subst parse_loop.simps) simp
  with s1 s2 show ?thesis by (intro exI [of _ s2] exI [of _ k1]) simp
qed

text \<open>What the options given leave in the record.\<close>

lemma fold_apply_opt [simp]:
  "single_threaded_fuse_mode_set (fold apply_opt os opts) \<longleftrightarrow>
     single_threaded_fuse_mode_set opts \<or> Single_threaded \<in> set os"
  "write_mode (fold apply_opt os opts) \<longleftrightarrow> write_mode opts \<and> Mount_option ''ro'' \<notin> set os"
  "help_set (fold apply_opt os opts) = help_set opts"
  "version_set (fold apply_opt os opts) = version_set opts"
  "adf_filename (fold apply_opt os opts) = adf_filename opts"
proof (induction os arbitrary: opts)
  case (Cons w os)
  case 1 show ?case using Cons(1) by (cases w) auto
  case 2 show ?case using Cons(2) by (cases w) auto
  case 3 show ?case using Cons(3) by (cases w) auto
  case 4 show ?case using Cons(4) by (cases w) auto
  case 5 show ?case using Cons(5) by (cases w) auto
qed simp_all

text \<open>Asking for help or the version ends the scan at once.\<close>

lemma parse_args_shows:
  assumes "list_all valid_opt os" "c = CHR ''h'' \<or> c = CHR ''V''"
  shows "\<exists>s. parse_args realpath (length ([prog] @ all_words os @ [[CHR ''-'', c]] @ rest))
      (vec ([prog] @ all_words os @ [[CHR ''-'', c]] @ rest) 1) = Some (True, s) \<and>
    help_set (options s) = (c = CHR ''h'') \<and> version_set (options s) = (c = CHR ''V'')"
proof -
  let ?w = "[CHR ''-'', c]"
  let ?xs = "[prog] @ all_words os @ [?w] @ rest"
  let ?pre = "[prog] @ all_words (filter for_fuse os)"
  let ?s = "\<lparr>argc = length ?xs, argv = vec ?xs 1, scanner = getopt_initialize, options = default_options, printed = []\<rparr>"
  have at: "at_word (length [prog]) (scanner ?s)" by (simp add: at_word_def getopt_initialize_def)
  have kind: "opt_kind valid_options c = Some 0" using assms(2) by auto
  from parse_loop_prefix [of ?s "[prog]" os "?w # rest" 1, OF _ _ at assms(1)] obtain s1 k1 where
    s1: "parse_loop ?s = parse_loop s1" "argc s1 = length (?pre @ ?w # rest)" "argv s1 = vec (?pre @ ?w # rest) k1"
      "at_word (length ?pre) (scanner s1)" "options s1 = fold apply_opt os default_options" by auto
  from getopt_flag [OF s1(4), of ?w c valid_options rest k1] kind assms(2) obtain g where
    g: "getopt valid_options (argc s1) (argv s1) (scanner s1) = Some (Opt c, None, argv s1, g)"
      "at_word (length ?pre + 1) g" using s1(2,3) by auto
  let ?o = "if c = CHR ''h'' then (options s1)\<lparr>help_set := True\<rparr> else (options s1)\<lparr>version_set := True\<rparr>"
  from drop_word [of "s1\<lparr>scanner := g, options := ?o\<rparr>" ?pre "[?w]" rest k1] g(2) s1(2,3) obtain s2 where
    s2: "drop_back 1 (s1\<lparr>scanner := g, options := ?o\<rparr>) = Some s2" "options s2 = ?o" by auto
  with g(1) assms(2) have "parse_step s1 = Some (False, Some True, s2)"
    by (auto simp: parse_step_def parse_option_def Let_def)
  then have "parse_loop s1 = Some (Some True, s2)" by (subst parse_loop.simps) simp
  with s1(1) have "parse_args realpath (length ?xs) (vec ?xs 1) = Some (True, s2)" by (simp add: parse_args_def)
  moreover have "\<not> help_set (fold apply_opt os default_options)" "\<not> version_set (fold apply_opt os default_options)"
    by (simp_all add: default_options_def)
  ultimately show ?thesis using s2(2) s1(5) assms(2) by auto
qed

lemma parse_args_finish:
  assumes "parse_loop \<lparr>argc = n, argv = a, scanner = getopt_initialize, options = default_options, printed = []\<rparr> = Some (None, s)"
    and "optind (scanner s) = length ys" "argc s = length (ys @ [img, mnt])" "argv s = vec (ys @ [img, mnt]) k"
  shows "parse_args realpath n a =
    Some (True, s\<lparr>argc := length (ys @ [mnt]), argv := vec (ys @ [mnt]) (k + 1),
                  options := (options s)\<lparr>adf_filename := Some img, mount_point := realpath mnt\<rparr>\<rparr>)"
proof -
  have "drop_arg (length (ys @ [img, mnt])) (vec (ys @ [img, mnt]) k) (length ys) =
      Some (length (ys @ [mnt]), vec (ys @ [mnt]) (k + 1))"
    using drop_arg_vec [of "length ys" "ys @ [img, mnt]" k] by simp
  moreover have "arg_at (vec (ys @ [img, mnt]) k) (length ys) = Some (Some img)"
    "arg_at (vec (ys @ [img, mnt]) k) (Suc (length ys)) = Some (Some mnt)"
    by (simp_all add: arg_at_vec nth_append)
  ultimately show ?thesis using assms by (simp add: parse_args_def)
qed

lemma parse_args_words:
  assumes "list_all valid_opt os" "\<not> is_option img" "\<not> is_option mnt"
  shows "\<exists>s k. parse_args realpath (length ([prog] @ all_words os @ [img, mnt]))
      (vec ([prog] @ all_words os @ [img, mnt]) 1) = Some (True, s) \<and>
    options s = (fold apply_opt os default_options)\<lparr>adf_filename := Some img, mount_point := realpath mnt\<rparr> \<and>
    argc s = length ([prog] @ all_words (filter for_fuse os) @ [mnt]) \<and>
    argv s = vec ([prog] @ all_words (filter for_fuse os) @ [mnt]) k \<and> 2 \<le> k"
proof -
  let ?xs = "[prog] @ all_words os @ [img, mnt]"
  let ?rest = "[prog] @ all_words (filter for_fuse os)"
  let ?s = "\<lparr>argc = length ?xs, argv = vec ?xs 1, scanner = getopt_initialize, options = default_options, printed = []\<rparr>"
  have "at_word (length [prog]) (scanner ?s)" by (simp add: at_word_def getopt_initialize_def)
  from parse_loop_words [of ?s "[prog]" os "[img, mnt]" 1, OF _ _ this assms(1)] assms(2,3) obtain s k where
    loop: "parse_loop ?s = Some (None, s)" "1 \<le> k" "optind (scanner s) = length ?rest"
      "argc s = length (?rest @ [img, mnt])" "argv s = vec (?rest @ [img, mnt]) k"
      "options s = fold apply_opt os default_options" by auto
  from parse_args_finish [OF loop(1,3-5)] loop(2,6) show ?thesis by (auto intro!: exI [of _ "k + 1"])
qed

text \<open>
  An argument attached to its option: the word in front of the option is dropped with it. In
  front of the first option meant for FUSE that is the program's name.
\<close>

definition attached_ok :: "char \<Rightarrow> string \<Rightarrow> bool" where
  "attached_ok c a \<longleftrightarrow> a \<noteq> [] \<and> (c = CHR ''l'' \<or> c = CHR ''p'' \<and> valid_opt (Partition a))"

definition apply_attached :: "char \<Rightarrow> string \<Rightarrow> cmdline_options \<Rightarrow> cmdline_options" where
  "apply_attached c a opts =
     (if c = CHR ''l'' then opts\<lparr>logging_file := Some a\<rparr> else opts\<lparr>adf_volume := ucast (snd (strtoul a))\<rparr>)"

lemma parse_step_attached:
  assumes "argc s = length (pre @ [x] @ (CHR ''-'' # c # a) # post)" "argv s = vec (pre @ [x] @ (CHR ''-'' # c # a) # post) k"
    and "at_word (length pre + 1) (scanner s)" "attached_ok c a"
  shows "\<exists>s'. parse_step s = Some (True, None, s') \<and> argc s' = length (pre @ post) \<and>
    argv s' = vec (pre @ post) (k + 2) \<and> optind (scanner s') = length pre \<and>
    (pre \<noteq> [] \<longrightarrow> at_word (length pre) (scanner s')) \<and> options s' = apply_attached c a (options s)"
proof -
  let ?w = "CHR ''-'' # c # a"
  let ?o = "apply_attached c a (options s)"
  have w: "is_option ?w" "?w \<noteq> ''--''" "c \<noteq> CHR ''-''" using assms(4) by (auto simp: is_option_def attached_ok_def)
  have kind: "opt_kind valid_options c = Some 1 \<or> opt_kind valid_options c = Some 2"
    using assms(4) by (auto simp: attached_ok_def)
  from fetch_word [of "pre @ [x]" "scanner s" ?w post k] assms(3) w(1,2) have
    "fetch_element (argc s) (argv s) (restart (scanner s)) = Some (True, argv s,
      (scanner s)\<lparr>nextchar := c # a, first_nonopt := length pre + 1, last_nonopt := length pre + 1\<rparr>)"
    using assms(1,2) by (simp add: restart_def at_word_def)
  then obtain g where get: "getopt valid_options (argc s) (argv s) (scanner s) = Some (Opt c, Some a, argv s, g)"
    and g: "at_word (length (pre @ [x]) + 1) g"
    using assms(1,3,4) kind by (auto simp: getopt_def next_char_def Let_def at_word_def attached_ok_def)
  let ?s = "s\<lparr>scanner := g, options := ?o\<rparr>"
  from drop_word [of ?s pre "[x, ?w]" post k] assms(1,2) g have
    drop: "drop_back 2 ?s = Some (?s\<lparr>argc := length (pre @ post), argv := vec (pre @ post) (k + 2),
        scanner := g\<lparr>optind := length pre\<rparr>\<rparr>)"
    by (simp add: numeral_2_eq_2)
  have "\<not> (10 :: 32 word) < ucast (snd (strtoul a)) \<and> fst (strtoul a)" if "c = CHR ''p''"
    using assms(4) that by (auto simp: attached_ok_def)
  with get assms(4) drop have "parse_step s = Some (True, None, ?s\<lparr>argc := length (pre @ post),
      argv := vec (pre @ post) (k + 2), scanner := g\<lparr>optind := length pre\<rparr>\<rparr>)"
    by (auto simp: parse_step_def parse_option_simps attached_ok_def apply_attached_def Let_def)
  moreover have "pre \<noteq> [] \<longrightarrow> at_word (length pre) (g\<lparr>optind := length pre\<rparr>)"
    using g by (cases pre) (auto simp: at_word_def)
  ultimately show ?thesis by simp
qed

text \<open>
  Without the program's name the scanner starts anew, behind the word that is the first now.
\<close>

lemma parse_loop_anew:
  assumes "1 \<le> argc s" "optind (scanner s) = 0"
  shows "parse_loop s = parse_loop (s\<lparr>scanner := getopt_initialize\<rparr>)"
proof -
  let ?s = "s\<lparr>scanner := getopt_initialize\<rparr>"
  have "getopt valid_options (argc s) (argv s) (scanner s) = getopt valid_options (argc s) (argv s) getopt_initialize"
    using assms by (simp add: getopt_def restart_def getopt_initialize_def)
  then have "parse_step s = parse_step ?s" by (simp add: parse_step_def)
  then show ?thesis by (simp add: parse_loop.simps [of s] parse_loop.simps [of ?s])
qed

text \<open>
  C12: On a command line of options each in a word of its own, with their arguments in the word
  behind (for \<open>-p\<close> a number of at most 10), an image and a mount point, \<open>parse_args\<close> succeeds: the options are those that were given,
  the later ones winning, the last two words are the image and the mount point, and what remains
  for FUSE is the program's name, the options meant for FUSE in their order, and the mount point.
  \<open>-l\<close> is among them without a file name only (the documented \<open>-l logfile\<close> in two words is
  refused), and of the mount options only the text \<open>ro\<close> alone makes the image read-only (in a list
  like \<open>ro,x\<close> it does not).
\<close>

theorem parse_args_documented:
  assumes "list_all valid_opt os" "\<not> is_option img" "\<not> is_option mnt"
  shows "\<exists>s k. parse_args realpath (length ([prog] @ all_words os @ [img, mnt]))
      (vec ([prog] @ all_words os @ [img, mnt]) 1) = Some (True, s) \<and>
    options s = (fold apply_opt os default_options)\<lparr>adf_filename := Some img, mount_point := realpath mnt\<rparr> \<and>
    argc s = length ([prog] @ all_words (filter for_fuse os) @ [mnt]) \<and>
    argv s = vec ([prog] @ all_words (filter for_fuse os) @ [mnt]) k \<and> 2 \<le> k"
  using assms by (rule parse_args_words)

text \<open>
  C35: Behind the options there must be exactly two words: with any other number of them
  \<open>parse_args\<close> fails and no image is named. So the documented \<open>-l logging_file\<close> is refused:
  the option takes no separate word, and the file's name is a third word.
\<close>

theorem parse_args_needs_two_words:
  assumes "list_all valid_opt os" "list_all (\<lambda>w. \<not> is_option w) rest" "length rest \<noteq> 2"
  shows "\<exists>s. parse_args realpath (length ([prog] @ all_words os @ rest)) (vec ([prog] @ all_words os @ rest) 1) =
    Some (False, s) \<and> adf_filename (options s) = None"
proof -
  let ?xs = "[prog] @ all_words os @ rest"
  let ?s = "\<lparr>argc = length ?xs, argv = vec ?xs 1, scanner = getopt_initialize, options = default_options, printed = []\<rparr>"
  have "at_word (length [prog]) (scanner ?s)" by (simp add: at_word_def getopt_initialize_def)
  from parse_loop_words [of ?s "[prog]" os rest 1, OF _ _ this assms(1,2)] obtain s where
    "parse_loop ?s = Some (None, s)" "optind (scanner s) + 2 \<noteq> argc s"
    "options s = fold apply_opt os default_options" using assms(3) by auto
  then show ?thesis by (auto simp: parse_args_def default_options_def)
qed

text \<open>
  C9: Whatever the command line, \<open>parse_args\<close> returns, and neither it nor the scanner reads or
  writes outside \<open>argv\<close> or follows a null pointer; \<open>argv\<close> is left with \<open>argc\<close> strings and a null
  pointer behind them. If it succeeds, the partition is at most 10 and, unless help or version
  were asked for, an image is named and there is room for one more argument.
\<close>

theorem parse_args_in_bounds:
  "\<exists>ok s ys k. parse_args realpath (length xs) (vec xs 1) = Some (ok, s) \<and>
    argc s = length ys \<and> argv s = vec ys k \<and> 1 \<le> k \<and>
    (ok \<longrightarrow> adf_volume (options s) \<le> 10 \<and>
      (\<not> help_set (options s) \<and> \<not> version_set (options s) \<longrightarrow> 2 \<le> k \<and> adf_filename (options s) \<noteq> None))"
  by (rule parse_args_ok)

text \<open>
  C27: An argument attached to its option, \<open>-llogfile\<close> or \<open>-p3\<close>, takes the word in front of it out
  of \<open>argv\<close>. If options for FUSE precede it, the last word of them is lost and the rest, before and
  behind it, is read as it should be. If none does, the lost word is the program's name, and the
  next word takes its place: with no option behind, that is the image, and the command line is
  refused; if the option behind is one without an argument, that option is lost, and the command
  line accepted. (The case of one with an argument there is left out.)
\<close>

theorem attached_argument_drops_word:
  assumes "list_all valid_opt os" "list_all valid_opt os2" "attached_ok c a" "\<not> is_option img" "\<not> is_option mnt"
    and "fuse = all_words (filter for_fuse os)"
    and "xs = [prog] @ all_words os @ [CHR ''-'' # c # a] @ all_words os2 @ [img, mnt]"
    and "fuse = [] \<and> os2 \<noteq> [] \<Longrightarrow> length (words (hd os2)) = 1"
    and "given = apply_attached c a (fold apply_opt os default_options)"
    and "named = (\<lambda>opts. opts\<lparr>adf_filename := Some img, mount_point := realpath mnt\<rparr>)"
  shows "\<exists>ok s k. parse_args realpath (length xs) (vec xs 1) = Some (ok, s) \<and>
    (if fuse \<noteq> [] then
       ok \<and> argv s = vec ([prog] @ butlast fuse @ all_words (filter for_fuse os2) @ [mnt]) k \<and>
       options s = named (fold apply_opt os2 given)
     else if os2 = [] then \<not> ok \<and> adf_filename (options s) = None
     else
       ok \<and> argv s = vec (words (hd os2) @ all_words (filter for_fuse (tl os2)) @ [mnt]) k \<and>
       options s = named (fold apply_opt (tl os2) given))"
proof -
  let ?w = "CHR ''-'' # c # a"
  let ?next = "all_words os2 @ [img, mnt]"
  let ?s = "\<lparr>argc = length xs, argv = vec xs 1, scanner = getopt_initialize, options = default_options, printed = []\<rparr>"
  have "at_word (length [prog]) (scanner ?s)" by (simp add: at_word_def getopt_initialize_def)
  from parse_loop_prefix [of ?s "[prog]" os "?w # ?next" 1, OF _ _ this assms(1)] assms(6,7) obtain s1 k1 where
    s1: "parse_loop ?s = parse_loop s1" "argc s1 = length ([prog] @ fuse @ ?w # ?next)"
      "argv s1 = vec ([prog] @ fuse @ ?w # ?next) k1"
      "at_word (length ([prog] @ fuse)) (scanner s1)" "options s1 = fold apply_opt os default_options" by auto
  let ?pre = "butlast ([prog] @ fuse)"
  have split: "[prog] @ fuse = ?pre @ [last ([prog] @ fuse)]" by (rule append_butlast_last_id [symmetric]) simp
  then have len: "length ([prog] @ fuse) = length ?pre + 1" by simp
  have words: "[prog] @ fuse @ ?w # ?next = ?pre @ [last ([prog] @ fuse)] @ ?w # ?next"
    using split by (metis append.assoc append_Cons append_Nil)
  from parse_step_attached [OF s1(2) [unfolded words] s1(3) [unfolded words] s1(4) [unfolded len] assms(3)]
  obtain s2 where s2: "parse_step s1 = Some (True, None, s2)" "argc s2 = length (?pre @ ?next)"
    "argv s2 = vec (?pre @ ?next) (k1 + 2)" "optind (scanner s2) = length ?pre"
    "?pre \<noteq> [] \<longrightarrow> at_word (length ?pre) (scanner s2)" "options s2 = given" using s1(5) assms(9) by auto
  from s1(1) s2(1) have loop: "parse_loop ?s = parse_loop s2" by (simp add: parse_loop.simps [of s1])
  have finish: "\<exists>s k. parse_args realpath (length xs) (vec xs 1) = Some (True, s) \<and>
      argv s = vec (pre @ all_words (filter for_fuse os') @ [mnt]) k \<and> options s = named (fold apply_opt os' given)"
    if "parse_loop ?s = parse_loop t" "argc t = length (pre @ all_words os' @ [img, mnt])"
      "argv t = vec (pre @ all_words os' @ [img, mnt]) k'" "at_word (length pre) (scanner t)"
      "options t = given" "list_all valid_opt os'" for t pre os' k'
  proof -
    note t = that
    from parse_loop_words [OF t(2-4,6)] assms(4,5) obtain s3 k3 where
      s3: "parse_loop t = Some (None, s3)" "optind (scanner s3) = length (pre @ all_words (filter for_fuse os'))"
      "argc s3 = length ((pre @ all_words (filter for_fuse os')) @ [img, mnt])"
      "argv s3 = vec ((pre @ all_words (filter for_fuse os')) @ [img, mnt]) k3" "options s3 = fold apply_opt os' given"
      using t(5) by auto
    from parse_args_finish [OF s3(1) [folded t(1)] s3(2-4)] s3(5) assms(10) show ?thesis by auto
  qed
  have anew: "at_word (length [w]) (scanner (s2\<lparr>scanner := getopt_initialize\<rparr>))" for w :: string
    by (simp add: at_word_def getopt_initialize_def)
  consider "fuse \<noteq> []" | "fuse = []" "os2 = []" | "fuse = []" "os2 \<noteq> []" by blast
  then show ?thesis
  proof cases
    case 1
    then have pre: "?pre = [prog] @ butlast fuse" by simp
    with s2(5) have "at_word (length ?pre) (scanner s2)" by simp
    from finish [OF loop s2(2,3) this s2(6) assms(2)] 1 pre show ?thesis by auto
  next
    case 2
    then have s2': "argc s2 = length ([img] @ [mnt])" "argv s2 = vec ([img] @ [mnt]) (k1 + 2)" "optind (scanner s2) = 0"
      using s2 by (simp_all add: all_words_def)
    then have "parse_loop s2 = parse_loop (s2\<lparr>scanner := getopt_initialize\<rparr>)" by (intro parse_loop_anew) simp_all
    moreover from parse_step_end [OF _ _ anew [of img], of "[mnt]" "k1 + 2"] s2' assms(5) obtain s3 where
      "parse_step (s2\<lparr>scanner := getopt_initialize\<rparr>) = Some (False, None, s3)" "optind (scanner s3) = 1"
      "argc s3 = 2" "options s3 = given" using s2(6) by auto
    ultimately have "parse_loop ?s = Some (None, s3)" "optind (scanner s3) + 2 \<noteq> argc s3" "options s3 = given"
      using loop by (simp_all add: parse_loop.simps [of "s2\<lparr>scanner := getopt_initialize\<rparr>"])
    with 2 show ?thesis by (auto simp: parse_args_def assms(9) apply_attached_def default_options_def)
  next
    case 3
    then obtain w where w: "words (hd os2) = [w]" using assms(8) by (auto simp: length_Suc_conv)
    from 3 obtain o' os3 where os2: "os2 = o' # os3" by (cases os2) auto
    have s2': "argc s2 = length ([w] @ all_words os3 @ [img, mnt])"
      "argv s2 = vec ([w] @ all_words os3 @ [img, mnt]) (k1 + 2)" "optind (scanner s2) = 0"
      using s2 3 os2 w by (simp_all add: all_words_def)
    then have "parse_loop ?s = parse_loop (s2\<lparr>scanner := getopt_initialize\<rparr>)"
      using loop parse_loop_anew [of s2] by simp
    from finish [OF this _ _ anew [of w], of os3 "k1 + 2"] s2' s2(6) assms(2) os2 3 w show ?thesis by auto
  qed
qed

end
