(* ===== verification/Fuseadf.thy ===== *)
theory Fuseadf
  imports Cmdline Adffs_Runs
begin

section \<open>The main program: \<open>src/src/fuseadf.c\<close>\<close>

text \<open>
  \<open>main\<close> reads the command line, opens the log file and the image, and hands control to FUSE.
  What it asks the system and the libraries for is the record \<open>system\<close>. The result is the exit
  status, or the call of \<open>fuse_main\<close> with its arguments and the state the handlers get; beside
  it the log and the text printed so far, and what happened to ADFlib's resources.

  The lemmas: every run ends or calls FUSE with nothing undefined on the way, and holds then
  nothing or everything; which run follows from which command line; and a whole life of the
  program, from the command line over any requests to \<open>adffs_destroy\<close>.
\<close>

subsection \<open>Help and version\<close>

record system =
  getuid :: nat
  geteuid :: nat
  allow_use_as_root :: bool
  realpath :: "string \<Rightarrow> string option"
  fopen_error :: "string \<Rightarrow> string option"
  FUSE_MAJOR_VERSION :: "32 word"
  FUSE_MINOR_VERSION :: "32 word"
  fuse_version :: "32 word"
  ADFLIB_VERSION :: string
  ADFLIB_DATE :: string
  adfGetVersionNumber :: string
  adfGetVersionDate :: string

definition get_adflib_build_version :: "system \<Rightarrow> string" where
  "get_adflib_build_version S = ADFLIB_VERSION S"

definition get_adflib_build_date :: "system \<Rightarrow> string" where
  "get_adflib_build_date S = ADFLIB_DATE S"

definition get_adflib_runtime_version :: "system \<Rightarrow> string" where
  "get_adflib_runtime_version S = adfGetVersionNumber S"

definition get_adflib_runtime_date :: "system \<Rightarrow> string" where
  "get_adflib_runtime_date S = adfGetVersionDate S"

definition usage_text :: string where
  "usage_text =
     ''Mount an ADF's volume and access its data in userspace (with FUSE).\<newline>\<newline>'' @
     ''Usage:'' @ [CHR 0x09] @ ''fuseadf [-f] [-d] [-i] [-p partition] [-l logging_file]\<newline>'' @
     ''                diskimage_adf mount_point\<newline>\<newline>'' @
     ''Options:\<newline>'' @
     ''    -p partition - partition/volume number (0-10), default: 0\<newline>'' @
     ''    -l logfile   - enable logging and (optionally) specify logging file,\<newline>'' @
     ''                   default log file: fuseadf.log\<newline>'' @
     ''    -i           - ignore checksum errors (default: do not ignore!)\<newline>'' @
     ''    -V           - show version\<newline>\<newline>'' @
     ''  FUSE options (for details see FUSE documentation):\<newline>'' @
     ''    -o mount_options -  list of mount options (ie. 'ro' for read-only mount)\<newline>'' @
     ''                     -  (see: man fusermount)\<newline>'' @
     ''    -f               -  run in foreground (do not daemonize)\<newline>'' @
     ''    -d               -  run in foreground with more verbose (debug) info\<newline>'' @
     ''    -s               -  single-threaded (enforced - no need to provide it)\<newline>''"

definition usage :: "log_state \<Rightarrow> log_state option" where
  "usage = print_err usage_text []"

definition get_logo :: "nat \<Rightarrow> string" where
  "get_logo logoidx =
     (let logo = [
      ''      _/_/                                                _/      _/_/   \<newline>'' @
      ''   _/      _/    _/    _/_/_/    _/_/      _/_/_/    _/_/_/    _/        \<newline>'' @
      ''_/_/_/_/  _/    _/  _/_/      _/_/_/_/  _/    _/  _/    _/  _/_/_/_/     \<newline>'' @
      '' _/      _/    _/      _/_/  _/        _/    _/  _/    _/    _/          \<newline>'' @
      ''_/        _/_/_/  _/_/_/      _/_/_/    _/_/_/    _/_/_/    _/           \<newline>'']
      in if logoidx < length logo then logo ! logoidx else logo ! 0)"

text \<open>The name and version the build files set.\<close>

definition PACKAGE_STRING :: string where
  "PACKAGE_STRING = ''fuseadf 0.7''"

definition show_version :: "system \<Rightarrow> log_state \<Rightarrow> log_state option" where
  "show_version S =
     print_out
       (''\<newline>%s\<newline>  '' @ PACKAGE_STRING @
        '', powered by:\<newline>\<newline>      FUSE:    build version    %d.%d'' @
        ''\<newline>               runtime version  %d\<newline>'' @
        ''\<newline>      ADFlib:  build version    %s ( %s )'' @
        ''\<newline>               runtime version  %s ( %s )\<newline>\<newline>'')
       [Str (Some (get_logo 0)), Int32 (FUSE_MAJOR_VERSION S), Int32 (FUSE_MINOR_VERSION S), Int32 (fuse_version S),
        Str (Some (get_adflib_build_version S)), Str (Some (get_adflib_build_date S)),
        Str (Some (get_adflib_runtime_version S)), Str (Some (get_adflib_runtime_date S))]"

subsection \<open>The program\<close>

definition EXIT_SUCCESS :: int where "EXIT_SUCCESS = 0"
definition EXIT_FAILURE :: int where "EXIT_FAILURE = 1"

datatype 'd outcome =
    Exit int
  | Fuse_main nat args "'d adffs_state"

text \<open>The option \<open>-s\<close> is added for FUSE when it was not given.\<close>

definition enforce_single_threaded :: "scan \<Rightarrow> (nat \<times> args) option" where
  "enforce_single_threaded s =
     (if \<not> single_threaded_fuse_mode_set (options s) then add_arg (argc s) (argv s) ''-s''
      else Some (argc s, argv s))"

text \<open>
  The log file: \<open>None\<close> if it was asked for and cannot be opened, \<open>Some None\<close> if it was not asked for.
  In that case \<open>main\<close> leaves the field \<open>logfile\<close> of the state uninitialised, which nothing reads;
  the model has \<open>None\<close> there.
\<close>

definition open_logfile ::
  "system \<Rightarrow> cmdline_options \<Rightarrow> log_state \<Rightarrow> (nat option option \<times> log_state) option" where
  "open_logfile S opts ls =
     (case logging_file opts of
        None \<Rightarrow> Some (Some None, ls)
      | Some path \<Rightarrow> do {
          (f, ls1) \<leftarrow> adffs_log_open (fopen_error S) path ls;
          (case f of
             None \<Rightarrow> do {
               ls2 \<leftarrow> print_err ''Cannot open log file: %s\<newline>'' [Str (Some path)] ls1;
               Some (None, ls2)
             }
           | Some h \<Rightarrow> do {
               ls2 \<leftarrow> print_out ''fuseadf logging file: %s\<newline>'' [Str (Some path)] ls1;
               Some (Some (Some h), ls2)
             })
        })"

text \<open>The note on an image that was opened for writing and is read-only.\<close>

definition note_read_only :: "cmdline_options \<Rightarrow> 'd adfimage \<Rightarrow> log_state \<Rightarrow> log_state option" where
  "note_read_only opts im ls =
     (if write_mode opts then do {
        d \<leftarrow> dev im;
        if dev_readOnly d then print_out ''Note: image opened in read-only mode.\<newline>'' [] ls else Some ls
      }
      else Some ls)"

text \<open>From opening the image on.\<close>

definition open_and_run ::
  "'d mountlib \<Rightarrow> ('d, 'f) adflib \<Rightarrow> cmdline_options \<Rightarrow> nat \<Rightarrow> args \<Rightarrow> nat option \<Rightarrow> heap \<Rightarrow> log_state
    \<Rightarrow> ('d outcome \<times> log_state \<times> adf_event list) option" where
  "open_and_run M L opts n a log h ls = do {
     ls1 \<leftarrow> print_out ''Opening image: %s, volume: %d. mode: %s\<newline>''
       [Str (adf_filename opts), Int32 (adf_volume opts),
        Str (Some (if write_mode opts then ''read-write'' else ''read-only''))] ls;
     file \<leftarrow> adf_filename opts;
     (case adfimage_open M L file (adf_volume opts) (\<not> write_mode opts) (ignore_checksum_errors opts) h of
        (None, evs) \<Rightarrow> do {
          ls2 \<leftarrow> print_err ''Cannot mount adf image: %s, volume/partition: %d - aborting...\<newline>''
            [Str (adf_filename opts), Int32 (adf_volume opts)] ls1;
          ls3 \<leftarrow> adffs_log_close ls2;
          Some (Exit EXIT_FAILURE, ls3, evs)
        }
      | (Some im, evs) \<Rightarrow> do {
          ls2 \<leftarrow> note_read_only opts im ls1;
          Some (Fuse_main n a \<lparr>mountpoint = mount_point opts, image = Some im, logfile = log\<rparr>, ls2, evs)
        })
   }"

text \<open>The static data at the start of the program.\<close>

definition log_start :: log_state where
  "log_start = \<lparr>streams = [], flog = None, stdout = [], stderr = []\<rparr>"

definition fuseadf_main ::
  "system \<Rightarrow> 'd mountlib \<Rightarrow> ('d, 'f) adflib \<Rightarrow> nat \<Rightarrow> args \<Rightarrow> heap
    \<Rightarrow> ('d outcome \<times> log_state \<times> adf_event list) option" where
  "fuseadf_main S M L n a h =
     (if \<not> allow_use_as_root S \<and> (getuid S = 0 \<or> geteuid S = 0) then do {
        ls \<leftarrow> print_err ''fuseadf is a (still) prototype - better (more safe) not to use it as root.\<newline>'' [] log_start;
        Some (Exit EXIT_FAILURE, ls, [])
      }
      else do {
        (ok, s) \<leftarrow> parse_args (realpath S) n a;
        let ls0 = log_start\<lparr>stderr := printed s\<rparr>;
        if \<not> ok then do {
          ls \<leftarrow> (if adf_filename (options s) = None \<or> mount_point (options s) = None
                 then print_err ''Usage info:  fuseadf -h\<newline>'' [] ls0 else Some ls0);
          Some (Exit EXIT_FAILURE, ls, [])
        }
        else if help_set (options s) then do { ls \<leftarrow> usage ls0; Some (Exit EXIT_SUCCESS, ls, []) }
        else if version_set (options s) then do { ls \<leftarrow> show_version S ls0; Some (Exit EXIT_SUCCESS, ls, []) }
        else do {
          (n', a') \<leftarrow> enforce_single_threaded s;
          (opened, ls) \<leftarrow> open_logfile S (options s) ls0;
          (case opened of
             None \<Rightarrow> Some (Exit EXIT_FAILURE, ls, [])
           | Some log \<Rightarrow> open_and_run M L (options s) n' a' log h ls)
        }
      })"

subsection \<open>What is printed\<close>

lemma print_out_frame: "print_out fmt args ls = Some ls' \<Longrightarrow> streams ls' = streams ls \<and> flog ls' = flog ls"
  by (auto simp: print_out_def bind_Some_iff)

lemma print_err_frame: "print_err fmt args ls = Some ls' \<Longrightarrow> streams ls' = streams ls \<and> flog ls' = flog ls"
  by (auto simp: print_err_def bind_Some_iff)

lemma print_out_some: "format fmt args = Some t \<Longrightarrow> print_out fmt args ls = Some (ls\<lparr>stdout := stdout ls @ t\<rparr>)"
  by (simp add: print_out_def)

lemma print_err_some: "format fmt args = Some t \<Longrightarrow> print_err fmt args ls = Some (ls\<lparr>stderr := stderr ls @ t\<rparr>)"
  by (simp add: print_err_def)

lemma usage_prints: "usage ls = Some (ls\<lparr>stderr := stderr ls @ usage_text\<rparr>)"
proof -
  have "format usage_text [] = Some usage_text" by (rule format_plain) (simp add: usage_text_def)
  then show ?thesis by (simp add: usage_def print_err_some)
qed

lemma show_version_prints: "\<exists>t. show_version S ls = Some (ls\<lparr>stdout := stdout ls @ t\<rparr>)"
  unfolding show_version_def print_out_def PACKAGE_STRING_def by (simp add: format_eval) (rule exI, rule refl)

lemma message_texts:
  "format ''Cannot open log file: %s\<newline>'' [Str (Some p)] = Some (''Cannot open log file: '' @ p @ ''\<newline>'')"
  "format ''fuseadf logging file: %s\<newline>'' [Str (Some p)] = Some (''fuseadf logging file: '' @ p @ ''\<newline>'')"
  "format ''Opening image: %s, volume: %d. mode: %s\<newline>'' [Str (Some p), Int32 n, Str (Some q)] =
    Some (''Opening image: '' @ p @ '', volume: '' @ signed_text False 0 (sint n) @ ''. mode: '' @ q @ ''\<newline>'')"
  "format ''Cannot mount adf image: %s, volume/partition: %d - aborting...\<newline>'' [Str (Some p), Int32 n] =
    Some (''Cannot mount adf image: '' @ p @ '', volume/partition: '' @ signed_text False 0 (sint n) @
      '' - aborting...\<newline>'')"
  "format ''Note: image opened in read-only mode.\<newline>'' [] = Some ''Note: image opened in read-only mode.\<newline>''"
  "format ''Usage info:  fuseadf -h\<newline>'' [] = Some ''Usage info:  fuseadf -h\<newline>''"
  "format ''fuseadf is a (still) prototype - better (more safe) not to use it as root.\<newline>'' [] =
    Some ''fuseadf is a (still) prototype - better (more safe) not to use it as root.\<newline>''"
  by (simp_all add: format_eval)

subsection \<open>The parts of a run\<close>

text \<open>The program has at most one log file, and has it open.\<close>

definition log_held :: "log_state \<Rightarrow> bool" where
  "log_held ls \<longleftrightarrow> (case flog ls of None \<Rightarrow> streams ls = [] | Some h \<Rightarrow> h = 0 \<and> (\<exists>s. streams ls = [s] \<and> s_open s))"

definition all_closed :: "log_state \<Rightarrow> bool" where
  "all_closed ls \<longleftrightarrow> list_all (\<lambda>s. \<not> s_open s) (streams ls)"

lemma log_held_frame: "streams ls' = streams ls \<Longrightarrow> flog ls' = flog ls \<Longrightarrow> log_held ls' = log_held ls"
  by (simp add: log_held_def split: option.split)

lemma log_held_ready: "log_held ls \<Longrightarrow> log_ready ls"
  unfolding log_held_def log_ready_def by (cases "flog ls") (simp, clarsimp)

lemma log_held_added: "log_held ls \<Longrightarrow> log_held (log_added t ls)"
  by (auto simp: log_held_def log_added_def split: option.splits)

lemma log_held_closes: "log_held ls \<Longrightarrow> \<exists>ls'. adffs_log_close ls = Some ls' \<and> all_closed ls'"
  using log_held_ready [of ls] by (cases "flog ls") (auto simp: adffs_log_close_eq log_held_def all_closed_def)

lemma adffs_log_close_prints: "adffs_log_close ls = Some ls' \<Longrightarrow> stderr ls' = stderr ls"
  by (auto simp: adffs_log_close_def log_close_def fclose_def split: option.split_asm if_split_asm)

lemma log_held_messages: "log_messages ms ls = Some ls' \<Longrightarrow> log_held ls \<Longrightarrow> log_held ls'"
proof (induction ms arbitrary: ls)
  case (Cons m ms)
  obtain fmt args where m: "m = (fmt, args)" by (cases m)
  with Cons.prems(1) obtain ls1 where s: "adffs_log_info fmt args ls = Some ls1" "log_messages ms ls1 = Some ls'"
    by (auto simp: bind_Some_iff)
  from adffs_log_info.result [OF s(1)] log_held_added [OF Cons.prems(2)] have "log_held ls1" by auto
  with Cons.IH [OF s(2)] show ?case .
qed simp

lemma enforce_single_threaded_vec:
  assumes "argc s = length ys" "argv s = vec ys k" "2 \<le> k"
    and "zs = ys @ (if single_threaded_fuse_mode_set (options s) then [] else [''-s''])"
  shows "\<exists>k'. enforce_single_threaded s = Some (length zs, vec zs k') \<and> 1 \<le> k'"
proof (cases "single_threaded_fuse_mode_set (options s)")
  case True
  with assms show ?thesis by (auto simp: enforce_single_threaded_def)
next
  case False
  with assms add_arg_vec [of k ys "''-s''"] show ?thesis
    by (auto simp: enforce_single_threaded_def intro!: exI [of _ "k - 1"])
qed

lemma open_logfile_result:
  "\<exists>r ls. open_logfile S opts log_start = Some (r, ls) \<and> log_held ls \<and>
    (case r of None \<Rightarrow> all_closed ls \<and> stderr ls \<noteq> [] | Some f \<Rightarrow> flog ls = f)"
  by (cases "logging_file opts"; cases "fopen_error S (the (logging_file opts))")
    (auto simp: open_logfile_def log_start_def log_held_def all_closed_def adffs_log_open_Some adffs_log_open_None
      print_err_some print_out_some message_texts)

lemma note_read_only_frame:
  assumes "dev im \<noteq> None"
  shows "\<exists>ls'. note_read_only opts im ls = Some ls' \<and> streams ls' = streams ls \<and> flog ls' = flog ls"
  using assms by (auto simp: note_read_only_def print_out_some message_texts)

lemma open_and_run_obeys:
  assumes "adf_filename opts = Some img" "log_held ls" "flog ls = log"
  shows "\<exists>r ls' evs. open_and_run M L opts n a log h ls = Some (r, ls', evs) \<and>
    (case r of
       Exit status \<Rightarrow> status = EXIT_FAILURE \<and> res_run nothing evs nothing \<and> all_closed ls' \<and> stderr ls' \<noteq> []
     | Fuse_main n' a' st \<Rightarrow> n' = n \<and> a' = a \<and> res_run nothing evs everything \<and>
         log_held ls' \<and> logfile st = flog ls' \<and> (\<exists>im. image st = Some im \<and> cwd im = ''/'' \<and>
         adfimage_open M L img (adf_volume opts) (\<not> write_mode opts) (ignore_checksum_errors opts) h = (Some im, evs)))"
proof -
  obtain r evs where op: "adfimage_open M L img (adf_volume opts) (\<not> write_mode opts) (ignore_checksum_errors opts) h = (r, evs)"
    by (cases "adfimage_open M L img (adf_volume opts) (\<not> write_mode opts) (ignore_checksum_errors opts) h")
  let ?t = "''Opening image: '' @ img @ '', volume: '' @ signed_text False 0 (sint (adf_volume opts)) @ ''. mode: '' @
    (if write_mode opts then ''read-write'' else ''read-only'') @ ''\<newline>''"
  let ?ls1 = "ls\<lparr>stdout := stdout ls @ ?t\<rparr>"
  have held: "log_held ?ls1" "flog ?ls1 = log"
    using assms(2,3) log_held_frame [of ?ls1 ls] by simp_all
  show ?thesis
  proof (cases r)
    case None
    let ?ls2 = "?ls1\<lparr>stderr := stderr ?ls1 @ ''Cannot mount adf image: '' @ img @ '', volume/partition: '' @
      signed_text False 0 (sint (adf_volume opts)) @ '' - aborting...\<newline>''\<rparr>"
    have "log_held ?ls2" using held(1) log_held_frame [of ?ls2 ?ls1] by simp
    from log_held_closes [OF this] obtain ls3 where "adffs_log_close ?ls2 = Some ls3" "all_closed ls3" by blast
    moreover from adffs_log_close_prints [OF this(1)] have "stderr ls3 \<noteq> []" by simp
    ultimately show ?thesis using None assms(1) op open_obeys [OF op]
      by (simp add: open_and_run_def print_out_some print_err_some message_texts)
  next
    case (Some im)
    with op have im: "dev im \<noteq> None" "cwd im = ''/''" using open_image [of M L img] by blast+
    from note_read_only_frame [OF this(1), of opts ?ls1] obtain ls2 where
      n: "note_read_only opts im ?ls1 = Some ls2" "streams ls2 = streams ?ls1" "flog ls2 = flog ?ls1" by blast
    then have "log_held ls2" "flog ls2 = log" using held log_held_frame [OF n(2,3)] by simp_all
    with Some assms(1) op open_obeys [OF op] n(1) im(2) show ?thesis
      by (simp add: open_and_run_def print_out_some message_texts)
  qed
qed


subsection \<open>Whole runs\<close>

text \<open>What the outcome of \<open>main\<close> says of everything the program holds.\<close>

definition outcome_holds ::
  "system \<Rightarrow> 'd mountlib \<Rightarrow> ('d, 'f) adflib \<Rightarrow> heap \<Rightarrow> 'd outcome \<Rightarrow> log_state \<Rightarrow> adf_event list \<Rightarrow> bool" where
  "outcome_holds S M L h r ls evs \<longleftrightarrow>
     (case r of
        Exit status \<Rightarrow> res_run nothing evs nothing \<and> all_closed ls \<and>
         (if status = EXIT_FAILURE then 0 < length (stderr ls) else status = EXIT_SUCCESS)
      | Fuse_main n a st \<Rightarrow>
          res_run nothing evs everything \<and> log_held ls \<and> logfile st = flog ls \<and>
          (allow_use_as_root S \<or> 0 < getuid S \<and> 0 < geteuid S) \<and>
          (\<exists>ys k. n = length ys \<and> a = vec ys k \<and> 1 \<le> k) \<and>
          (\<exists>img part ro ign im. adfimage_open M L img part ro ign h = (Some im, evs) \<and> image st = Some im \<and>
            cwd im = ''/'' \<and> part \<le> 10))"

lemma main_ends_early:
  assumes "\<not> (\<not> allow_use_as_root S \<and> (getuid S = 0 \<or> geteuid S = 0))" "parse_args (realpath S) n a = Some (ok, s)"
    and "\<not> (ok \<and> \<not> help_set (options s) \<and> \<not> version_set (options s))"
  shows "\<exists>r ls evs. fuseadf_main S M L n a h = Some (r, ls, evs) \<and> outcome_holds S M L h r ls evs"
proof -
  let ?ls0 = "log_start\<lparr>stderr := printed s\<rparr>"
  from show_version_prints [of S ?ls0] obtain t where
    "show_version S ?ls0 = Some (?ls0\<lparr>stdout := stdout ?ls0 @ t\<rparr>)" by blast
  with assms parse_args_quiet [OF assms(2)] show ?thesis
    by (cases ok; cases "help_set (options s)")
      (auto simp: fuseadf_main_def Let_def print_err_some message_texts usage_prints outcome_holds_def all_closed_def
        log_start_def EXIT_FAILURE_def EXIT_SUCCESS_def)
qed

lemma main_outcome:
  "\<exists>r ls evs. fuseadf_main S M L (length xs) (vec xs 1) h = Some (r, ls, evs) \<and> outcome_holds S M L h r ls evs"
proof (cases "\<not> allow_use_as_root S \<and> (getuid S = 0 \<or> geteuid S = 0)")
  case True
  then show ?thesis
    by (simp add: fuseadf_main_def print_err_some message_texts outcome_holds_def all_closed_def log_start_def
        EXIT_FAILURE_def)
next
  case user: False
  then have user': "allow_use_as_root S \<or> 0 < getuid S \<and> 0 < geteuid S" by auto
  from parse_args_ok [of "realpath S" xs] obtain ok s ys k where
    p: "parse_args (realpath S) (length xs) (vec xs 1) = Some (ok, s)" "argc s = length ys" "argv s = vec ys k"
    and good: "ok \<Longrightarrow> \<not> help_set (options s) \<Longrightarrow> \<not> version_set (options s) \<Longrightarrow> 2 \<le> k \<and> adf_filename (options s) \<noteq> None"
    and part: "ok \<Longrightarrow> adf_volume (options s) \<le> 10"
    by auto
  show ?thesis
  proof (cases "ok \<and> \<not> help_set (options s) \<and> \<not> version_set (options s)")
    case False
    with user p(1) show ?thesis by (intro main_ends_early)
  next
    case go: True
    with good obtain img where k: "2 \<le> k" and img: "adf_filename (options s) = Some img" by auto
    from enforce_single_threaded_vec [OF p(2,3) k refl] obtain zs k' where
      e: "enforce_single_threaded s = Some (length zs, vec zs k')" "1 \<le> k'" by blast
    from open_logfile_result [of S "options s"] obtain opened ls where
      o': "open_logfile S (options s) log_start = Some (opened, ls)" "log_held ls"
        "case opened of None \<Rightarrow> all_closed ls \<and> stderr ls \<noteq> [] | Some f \<Rightarrow> flog ls = f" by blast
    have quiet: "log_start\<lparr>stderr := printed s\<rparr> = log_start"
      using parse_args_quiet [OF p(1)] go by (simp add: log_start_def)
    have main: "fuseadf_main S M L (length xs) (vec xs 1) h =
        (case opened of None \<Rightarrow> Some (Exit EXIT_FAILURE, ls, [])
         | Some log \<Rightarrow> open_and_run M L (options s) (length zs) (vec zs k') log h ls)"
      using p(1) go user e(1) o'(1) by (auto simp: fuseadf_main_def quiet)
    show ?thesis
    proof (cases opened)
      case None
      with main o'(3) show ?thesis by (simp add: outcome_holds_def)
    next
      case (Some log)
      with o'(3) have "flog ls = log" by simp
      from open_and_run_obeys [OF img o'(2) this, of M L "length zs" "vec zs k'" h] obtain r ls' evs where
        run: "open_and_run M L (options s) (length zs) (vec zs k') log h ls = Some (r, ls', evs)"
        and r: "case r of
          Exit status \<Rightarrow> status = EXIT_FAILURE \<and> res_run nothing evs nothing \<and> all_closed ls' \<and> stderr ls' \<noteq> []
        | Fuse_main n' a' st \<Rightarrow> n' = length zs \<and> a' = vec zs k' \<and> res_run nothing evs everything \<and>
            log_held ls' \<and> logfile st = flog ls' \<and> (\<exists>im. image st = Some im \<and> cwd im = ''/'' \<and>
            adfimage_open M L img (adf_volume (options s)) (\<not> write_mode (options s))
              (ignore_checksum_errors (options s)) h = (Some im, evs))" by blast
      from main run Some have "fuseadf_main S M L (length xs) (vec xs 1) h = Some (r, ls', evs)" by simp
      moreover have "outcome_holds S M L h r ls' evs"
        using r e(2) user' part go by (cases r) (simp add: outcome_holds_def, simp add: outcome_holds_def, blast)
      ultimately show ?thesis by blast
    qed
  qed
qed

lemma main_starts:
  assumes "list_all valid_opt os" "\<not> is_option img" "\<not> is_option mnt" "getuid S \<noteq> 0" "geteuid S \<noteq> 0"
    and "opts = fold apply_opt os default_options"
    and "open_logfile S opts log_start = Some (Some log, ls)"
    and "adfimage_open M L img (adf_volume opts) (Mount_option ''ro'' \<in> set os) (ignore_checksum_errors opts) h =
      (Some im, evs)"
    and "args = [prog] @ all_words (filter for_fuse os) @ [mnt] @ (if Single_threaded \<in> set os then [] else [''-s''])"
  shows "\<exists>k ls'. fuseadf_main S M L (length ([prog] @ all_words os @ [img, mnt])) (vec ([prog] @ all_words os @ [img, mnt]) 1) h =
    Some (Fuse_main (length args) (vec args k) \<lparr>mountpoint = realpath S mnt, image = Some im, logfile = log\<rparr>, ls', evs) \<and>
    1 \<le> k \<and> streams ls' = streams ls \<and> flog ls' = log"
proof -
  let ?xs = "[prog] @ all_words os @ [img, mnt]"
  let ?ys = "[prog] @ all_words (filter for_fuse os) @ [mnt]"
  from parse_args_words [OF assms(1-3), where realpath = "realpath S" and prog = prog] obtain s k where
    p: "parse_args (realpath S) (length ?xs) (vec ?xs 1) = Some (True, s)"
    and o': "options s = opts\<lparr>adf_filename := Some img, mount_point := realpath S mnt\<rparr>"
    and a: "argc s = length ?ys" "argv s = vec ?ys k" "2 \<le> k" using assms(6) by blast
  have "args = ?ys @ (if single_threaded_fuse_mode_set (options s) then [] else [''-s''])"
    using assms(6,9) by (simp add: o' default_options_def)
  from enforce_single_threaded_vec [OF a this]
  obtain k' where e: "enforce_single_threaded s = Some (length args, vec args k')" "1 \<le> k'" by blast
  have quiet: "log_start\<lparr>stderr := printed s\<rparr> = log_start"
    using parse_args_quiet [OF p] by (simp add: log_start_def)
  have log: "open_logfile S (options s) log_start = Some (Some log, ls)"
    using assms(7) by (simp add: open_logfile_def o')
  from open_logfile_result [of S "options s"] log have held: "flog ls = log" by auto
  have wr: "\<not> write_mode opts \<longleftrightarrow> Mount_option ''ro'' \<in> set os" and no: "\<not> help_set opts" "\<not> version_set opts"
    using assms(6) by (simp_all add: default_options_def)
  from assms(8) have dev: "dev im \<noteq> None" using open_image [of M L img] by blast
  let ?t = "''Opening image: '' @ img @ '', volume: '' @ signed_text False 0 (sint (adf_volume opts)) @ ''. mode: '' @
    (if write_mode opts then ''read-write'' else ''read-only'') @ ''\<newline>''"
  from note_read_only_frame [OF dev, of "options s" "ls\<lparr>stdout := stdout ls @ ?t\<rparr>"] obtain ls' where
    n: "note_read_only (options s) im (ls\<lparr>stdout := stdout ls @ ?t\<rparr>) = Some ls'" "streams ls' = streams ls" "flog ls' = log"
    using held by auto
  from n(1) assms(8) wr have "open_and_run M L (options s) (length args) (vec args k') log h ls =
      Some (Fuse_main (length args) (vec args k') \<lparr>mountpoint = realpath S mnt, image = Some im, logfile = log\<rparr>, ls', evs)"
    by (simp add: open_and_run_def o' print_out_some message_texts)
  moreover have "fuseadf_main S M L (length ?xs) (vec ?xs 1) h =
      open_and_run M L (options s) (length args) (vec args k') log h ls"
    using p no assms(4,5) e(1) log quiet by (simp add: fuseadf_main_def o')
  ultimately show ?thesis using e(2) n(2,3) by auto
qed

lemma program_released:
  assumes "fuseadf_main S M L (length xs) (vec xs 1) h = Some (Fuse_main n a st, ls, evs)"
    and "runs (adffs_oper L env) rs (adffs_init st) = Some (Ret (outs, st'))" "log_messages ms ls = Some ls'"
  shows "\<exists>st'' ls'' evs'. adffs_destroy st' ls' = Some (st'', ls'', evs') \<and>
    res_run nothing (evs @ evs') nothing \<and> all_closed ls'' \<and> image st'' = None \<and> mountpoint st'' = None"
proof -
  from main_outcome [of S M L xs h] assms(1) obtain img part ro ign im where
    op: "adfimage_open M L img part ro ign h = (Some im, evs)" "image st = Some im" and held: "log_held ls"
    by (auto simp: outcome_holds_def)
  from log_held_closes [OF log_held_messages [OF assms(3) held]] obtain ls'' where
    "adffs_log_close ls' = Some ls''" "all_closed ls''" by blast
  with mount_use_destroy [OF op assms(2) [unfolded adffs_init_def]] show ?thesis by blast
qed

text \<open>The state that \<open>main\<close> hands to FUSE represents the volume it opened.\<close>

lemma main_represents:
  assumes "fuseadf_main S M L (length xs) (vec xs 1) [] = Some (Fuse_main n a st, ls, evs)"
  shows "\<exists>blk v. fs_represents L' blk 1 (adffs_init st) v"
proof -
  from main_outcome [of S M L xs "[]"] assms obtain img part ro ign im where
    op: "adfimage_open M L img part ro ign [] = (Some im, evs)" "image st = Some im"
    by (auto simp: outcome_holds_def)
  from open_image [OF op(1)] obtain v where "vol im = Some v" "cwd im = ''/''" "heap im = []" by auto
  then have "represents L' 1 im v"
    by (intro representsI [where ds = "[]"]) (simp_all add: abspath_def)
  with op(2) show ?thesis by (auto simp: fs_represents_def adffs_init_def)
qed

subsection \<open>Properties\<close>

text \<open>
  C13: Whatever the command line and the system, the program ends or calls FUSE, without an
  access outside \<open>argv\<close> or a message that cannot be printed. Started by root, unless it is built to
  allow that, it only prints a message and ends with failure, before it opens anything. If it
  ends by itself otherwise, everything it acquired of ADFlib has been released, the log is closed
  and, if it failed, a message was printed. If it calls FUSE, everything is held, the log, if there
  is one, is open, the state has an image that was just opened, with \<open>cwd\<close> the text \<open>/\<close>, and \<open>argv\<close>
  is terminated behind its \<open>argc\<close> strings.
\<close>

theorem main_all_or_nothing:
  "\<exists>r ls evs. fuseadf_main S M L (length xs) (vec xs 1) h = Some (r, ls, evs) \<and>
    (if \<not> allow_use_as_root S \<and> (getuid S = 0 \<or> geteuid S = 0)
     then r = Exit EXIT_FAILURE \<and> evs = [] \<and> streams ls = [] \<and> 0 < length (stderr ls)
     else case r of
       Exit status \<Rightarrow> res_run nothing evs nothing \<and> all_closed ls \<and>
         (if status = EXIT_FAILURE then 0 < length (stderr ls) else status = EXIT_SUCCESS)
     | Fuse_main n a st \<Rightarrow> res_run nothing evs everything \<and> log_held ls \<and> logfile st = flog ls \<and>
         (\<exists>ys k. n = length ys \<and> a = vec ys k \<and> 1 \<le> k) \<and>
         (\<exists>im img part ro ign. image st = Some im \<and> cwd im = ''/'' \<and>
            adfimage_open M L img part ro ign h = (Some im, evs)))"
proof (cases "\<not> allow_use_as_root S \<and> (getuid S = 0 \<or> geteuid S = 0)")
  case True
  then show ?thesis
    by (simp add: fuseadf_main_def print_err_some message_texts log_start_def)
next
  case False
  from main_outcome [of S M L xs h] obtain r ls evs where
    main: "fuseadf_main S M L (length xs) (vec xs 1) h = Some (r, ls, evs)" and out: "outcome_holds S M L h r ls evs"
    by blast
  show ?thesis
  proof (cases r)
    case (Exit status)
    with main out show ?thesis unfolding if_not_P [OF False] by (auto simp: outcome_holds_def)
  next
    case (Fuse_main n a st)
    with out have "\<exists>img part ro ign im. adfimage_open M L img part ro ign h = (Some im, evs) \<and>
        image st = Some im \<and> cwd im = ''/'' \<and> part \<le> 10" by (simp add: outcome_holds_def)
    then have "\<exists>im img part ro ign. image st = Some im \<and> cwd im = ''/'' \<and>
        adfimage_open M L img part ro ign h = (Some im, evs)" by blast
    with Fuse_main main out show ?thesis unfolding if_not_P [OF False] by (simp add: outcome_holds_def)
  qed
qed

text \<open>
  C19: Started by an ordinary user with options each in a word of its own (\<open>-l\<close> without a file
  name), an image that opens and a mount point, and whose log file, if any, opens too, the program
  calls FUSE with the options meant for it, the mount point, and \<open>-s\<close> among them in every case:
  FUSE runs single-threaded. The image is opened for writing unless \<open>-o\<close> was given with the text
  \<open>ro\<close> alone, so for writing also when \<open>ro\<close> is one of several mount options in a list.
\<close>

theorem main_starts_fuse:
  assumes "list_all valid_opt os" "\<not> is_option img" "\<not> is_option mnt" "getuid S \<noteq> 0" "geteuid S \<noteq> 0"
    and "opts = fold apply_opt os default_options"
    and "open_logfile S opts log_start = Some (Some log, ls)"
    and "adfimage_open M L img (adf_volume opts) (Mount_option ''ro'' \<in> set os) (ignore_checksum_errors opts) h =
      (Some im, evs)"
    and "args = [prog] @ all_words (filter for_fuse os) @ [mnt] @ (if Single_threaded \<in> set os then [] else [''-s''])"
  shows "\<exists>k ls'. fuseadf_main S M L (length ([prog] @ all_words os @ [img, mnt])) (vec ([prog] @ all_words os @ [img, mnt]) 1) h =
    Some (Fuse_main (length args) (vec args k) \<lparr>mountpoint = realpath S mnt, image = Some im, logfile = log\<rparr>, ls', evs) \<and>
    1 \<le> k \<and> streams ls' = streams ls \<and> flog ls' = log"
  using assms by (rule main_starts)

text \<open>
  Asked for help or the version behind any documented options, the program prints the usage
  text or the version and ends with success, whatever else is on the command line: it opens
  neither log nor image.
\<close>

lemma main_shows_help:
  assumes "list_all valid_opt os" "getuid S \<noteq> 0" "geteuid S \<noteq> 0"
  shows "fuseadf_main S M L (length ([prog] @ all_words os @ [''-h''] @ rest)) (vec ([prog] @ all_words os @ [''-h''] @ rest) 1) h =
      Some (Exit EXIT_SUCCESS, log_start\<lparr>stderr := usage_text\<rparr>, []) \<and>
    (\<exists>t. fuseadf_main S M L (length ([prog] @ all_words os @ [''-V''] @ rest)) (vec ([prog] @ all_words os @ [''-V''] @ rest) 1) h =
      Some (Exit EXIT_SUCCESS, log_start\<lparr>stdout := t\<rparr>, []))"
proof -
  from parse_args_shows [OF assms(1), of "CHR ''h''" "realpath S" prog rest] obtain s where
    h: "parse_args (realpath S) (length ([prog] @ all_words os @ [''-h''] @ rest))
      (vec ([prog] @ all_words os @ [''-h''] @ rest) 1) = Some (True, s)" "help_set (options s)" by auto
  from parse_args_shows [OF assms(1), of "CHR ''V''" "realpath S" prog rest] obtain s' where
    v: "parse_args (realpath S) (length ([prog] @ all_words os @ [''-V''] @ rest))
      (vec ([prog] @ all_words os @ [''-V''] @ rest) 1) = Some (True, s')" "\<not> help_set (options s')" "version_set (options s')"
    by auto
  have quiet: "log_start\<lparr>stderr := printed s\<rparr> = log_start" "log_start\<lparr>stderr := printed s'\<rparr> = log_start"
    using parse_args_quiet [OF h(1)] parse_args_quiet [OF v(1)] by (simp_all add: log_start_def)
  from show_version_prints [of S log_start] obtain t where
    "show_version S log_start = Some (log_start\<lparr>stdout := t\<rparr>)" by (auto simp: log_start_def)
  with v assms(2,3) have "\<exists>t. fuseadf_main S M L (length ([prog] @ all_words os @ [''-V''] @ rest))
      (vec ([prog] @ all_words os @ [''-V''] @ rest) 1) h = Some (Exit EXIT_SUCCESS, log_start\<lparr>stdout := t\<rparr>, [])"
    by (auto simp: fuseadf_main_def quiet)
  moreover have "fuseadf_main S M L (length ([prog] @ all_words os @ [''-h''] @ rest))
      (vec ([prog] @ all_words os @ [''-h''] @ rest) 1) h = Some (Exit EXIT_SUCCESS, log_start\<lparr>stderr := usage_text\<rparr>, [])"
    using h assms(2,3) by (simp add: fuseadf_main_def usage_prints quiet) (simp add: log_start_def)
  ultimately show ?thesis by blast
qed

text \<open>
  C8: A whole life of the program: when \<open>main\<close> has called FUSE, and FUSE has called
  \<open>adffs_init\<close>, any requests that all returned, with any messages logged meanwhile, and
  \<open>adffs_destroy\<close>, then the latter returns, everything acquired of ADFlib since the start has been
  released in the order the protocol allows, every stream is closed, and the state has neither
  image nor mount point.
\<close>

theorem program_releases_all:
  assumes "fuseadf_main S M L (length xs) (vec xs 1) h = Some (Fuse_main n a st, ls, evs)"
    and "runs (adffs_oper L env) rs (adffs_init st) = Some (Ret (outs, st'))" "log_messages ms ls = Some ls'"
  shows "\<exists>st'' ls'' evs'. adffs_destroy st' ls' = Some (st'', ls'', evs') \<and>
    res_run nothing (evs @ evs') nothing \<and> all_closed ls'' \<and> image st'' = None \<and> mountpoint st'' = None"
  using assms by (rule program_released)

end
