(* ===== verification/Witnesses.thy ===== *)
theory Witnesses
  imports Sample_Volume Fuseadf
begin

section \<open>The properties on the small volume\<close>

text \<open>
  For each property with hypotheses, one use of it: on the volume, image and state of
  \<open>Sample_Volume\<close>, or on a concrete string, time or run.
\<close>

subsection \<open>Paths and times\<close>

theorem remove_trailing_slashes_strips_witness:
  "\<exists>buf'. pathstr_remove_trailing_slashes (''/docs//'' @ [NUL]) = Some buf' \<and> cstr buf' = ''/docs''"
proof -
  have "cstr (''/docs//'' @ [NUL]) = ''/docs//''" by (simp add: cstr_def)
  then show ?thesis
    using remove_trailing_slashes_strips [of "''/docs//'' @ [NUL]"] by (simp add: strip_trailing_def)
qed

theorem fuse2amigados_outcome_witness:
  "pathstr_fuse2amigados (''/a/../b'' @ [NUL]) = None \<and> pathstr_fuse2amigados (''/a/b/..'' @ [NUL]) \<noteq> None"
  using fuse2amigados_outcome [of "''/a/../b''"] fuse2amigados_outcome [of "''/a/b/..''"]
  by (simp add: amigados_path_def)

theorem path_create_splits_witness:
  "fst (path_create (abspath ([''docs''] @ [''a.txt''])) []) = Some \<lparr>dirpath = ''/docs'', entryname = ''a.txt''\<rparr>"
  using path_create_splits [of "[''docs'']" "''a.txt''" "[]"] by auto

theorem gmtime_to_time_t_strict_mono_witness:
  "civil_to_time_t \<lparr>c_year = 1978, c_month = 1, c_day = 1, c_hour = 0, c_min = 0, c_sec = 0\<rparr>
    < civil_to_time_t \<lparr>c_year = 2024, c_month = 2, c_day = 29, c_hour = 12, c_min = 30, c_sec = 59\<rparr>"
  by (rule gmtime_to_time_t_strict_mono) (simp_all add: civil_ok_def civil_less_def month_days_def leap_year_def)

subsection \<open>Directories\<close>

lemma max_path [simp]: "ADFIMAGE_MAX_PATH = 1024"
  by (simp add: ADFIMAGE_MAX_PATH_def)

theorem chdir_walks_path_witness:
  "adfimage_chdir tiny_lib ''/docs/sub'' tiny_image =
    Some (True, tiny_image\<lparr>vol := Some (tiny_volume\<lparr>curDirPtr := 920\<rparr>), cwd := ''/docs/sub''\<rparr>)"
  using chdir_walks_path [of "[''docs'', ''sub'']" tiny_image tiny_volume tiny_lib True
      "tiny_volume\<lparr>curDirPtr := 920\<rparr>" "[''docs'', ''sub'']"]
  by (simp add: abspath_def)

lemma tiny_chdir:
  "adfimage_chdir tiny_lib (abspath [''docs'', ''new'']) tiny_image =
    Some (False, tiny_image\<lparr>vol := Some (tiny_volume\<lparr>curDirPtr := 900\<rparr>), cwd := ''/docs''\<rparr>)"
  using adfimage_chdir_absolute [of "[''docs'', ''new'']" tiny_image tiny_volume tiny_lib] by simp

theorem chdir_keeps_sync_witness:
  "in_sync tiny_lib (tiny_image\<lparr>vol := Some (tiny_volume\<lparr>curDirPtr := 900\<rparr>), cwd := ''/docs''\<rparr>)"
  by (rule chdir_keeps_sync [OF tiny_nav _ _ _ _ tiny_chdir, where cs = "[''docs'', ''new'']"]) simp_all

theorem chdir_there_and_back_witness:
  "adfimage_chdir tiny_lib ''/'' (tiny_image\<lparr>vol := Some (tiny_volume\<lparr>curDirPtr := 900\<rparr>), cwd := ''/docs''\<rparr>)
    = Some (True, tiny_image)"
  using chdir_there_and_back [OF tiny_nav, of "[''docs'', ''new'']" tiny_image, OF _ tiny_in_sync _ tiny_chdir]
  by simp

text \<open>From an image whose working directories disagree, the look-up goes to where \<open>cwd\<close> says.\<close>

lemma tiny_moved:
  "cwd_ok tiny_image_moved" "heap tiny_image_moved = []" "vol tiny_image_moved = Some (tiny_volume\<lparr>curDirPtr := 900\<rparr>)"
  "homed tiny_lib tiny_image_moved = tiny_image\<lparr>vol := Some (tiny_volume\<lparr>curDirPtr := 920\<rparr>), cwd := ''/docs/sub''\<rparr>"
proof -
  show ok: "cwd_ok tiny_image_moved"
    by (rule cwd_okI [of "[''docs'', ''sub'']"]) (simp_all add: tiny_image_moved_def abspath_def)
  show heap: "heap tiny_image_moved = []"
    and vol: "vol tiny_image_moved = Some (tiny_volume\<lparr>curDirPtr := 900\<rparr>)" by (simp_all add: tiny_image_moved_def)
  have "cwd tiny_image_moved = abspath [''docs'', ''sub'']" by (simp add: tiny_image_moved_def abspath_def)
  from homed_walk [OF _ this _ vol heap, of tiny_lib]
  show "homed tiny_lib tiny_image_moved = tiny_image\<lparr>vol := Some (tiny_volume\<lparr>curDirPtr := 920\<rparr>), cwd := ''/docs/sub''\<rparr>"
    by (simp add: abspath_def) (simp add: tiny_image_moved_def)
qed

lemma tiny_moved_root: "adfToRootDir tiny_lib (tiny_volume\<lparr>curDirPtr := 900\<rparr>) = tiny_volume"
  by simp

theorem getdentry_finds_witness:
  "\<exists>d. adfimage_getdentry tiny_lib (abspath ([''docs''] @ [''sub''])) tiny_image_moved =
      Some (d, tiny_image\<lparr>vol := Some (tiny_volume\<lparr>curDirPtr := 920\<rparr>), cwd := ''/docs/sub''\<rparr>) \<and>
    dtype d = ADFVOLUME_DENTRY_DIRECTORY \<and> e_name (adflib_entry d) = ''sub''"
proof -
  from getdentry_finds [OF tiny_nav _ _ tiny_moved(1-3), of "[''docs'']" "''sub''" True "tiny_volume\<lparr>curDirPtr := 900\<rparr>" "[''docs'']"]
  obtain d before behind where
    "adfimage_getdentry tiny_lib (abspath ([''docs''] @ [''sub''])) tiny_image_moved = Some (d, homed tiny_lib tiny_image_moved)"
    "dtype d = dentry_type_of tiny_lib (adflib_entry d)" "e_name (adflib_entry d) = ''sub''"
    "[tiny_entry (- 3) ''a.txt'' 910, tiny_entry 2 ''sub'' 920] = before @ adflib_entry d # behind" by auto
  moreover from this(3,4) have "adflib_entry d = tiny_entry 2 ''sub'' 920"
    by (auto simp: Cons_eq_append_conv dest: arg_cong [where f = e_name])
  ultimately show ?thesis by (simp add: tiny_moved(4) dentry_type_of_def tiny_consts_def)
qed

definition tiny_dentry :: adfimage_dentry where
  "tiny_dentry = \<lparr>dtype = ADFVOLUME_DENTRY_FILE, adflib_entry = tiny_entry (- 3) ''a.txt'' 910\<rparr>"

lemma tiny_look:
  "adfimage_getdentry tiny_lib (abspath ([''docs''] @ [''a.txt''])) tiny_image = Some (tiny_dentry, tiny_image)"
  using getdentry_absolute [OF tiny_nav _ _ tiny_in_sync, of "[''docs'']" "''a.txt''" tiny_volume True
      "tiny_volume\<lparr>curDirPtr := 900\<rparr>" "[''docs'']"]
  by (simp add: Let_def lookup_entry_def dentry_type_of_def tiny_dentry_def tiny_consts_def)

theorem setperm_grants_witness:
  "adfimage_setperm tiny_lib (abspath ([''docs''] @ [''a.txt''])) ADF_PERM_WRITE tiny_image =
    Some (True, tiny_image\<lparr>vol := Some (snd (tiny_write_block tiny_volume 910
      (no_block\<lparr>b_secType := - 3, b_name := ''a.txt'', b_access := 2\<rparr>)))\<rparr>)"
proof -
  have v: "adfimage_dentry_valid tiny_dentry"
    by (simp add: adfimage_dentry_valid_def tiny_dentry_def less_dentry_type_def)
  have b: "adfReadEntryBlock tiny_lib tiny_volume (e_sector (adflib_entry tiny_dentry)) =
      (0, no_block\<lparr>b_secType := - 3, b_name := ''a.txt''\<rparr>)"
    by (simp add: tiny_dentry_def tiny_read_block_def tiny_volume_def tiny_data_def)
  have ok: "rc_ok tiny_lib 0" by (simp add: tiny_consts_def)
  from setperm_grants [OF tiny_access tiny_look v _ b ok refl, of ADF_PERM_WRITE] show ?thesis
    by (simp add: tiny_write_block_def tiny_consts_def perm_defs tiny_dentry_def)
qed

subsection \<open>Files\<close>

lemma tiny_opens:
  "adfFileOpen tiny_lib (tiny_volume\<lparr>curDirPtr := 900\<rparr>) ''a.txt'' ADF_FILE_MODE_WRITE =
    (Some \<lparr>tf_dir = 900, tf_name = ''a.txt'', tf_pos = 0, tf_size = 5\<rparr>, tiny_volume\<lparr>curDirPtr := 900\<rparr>)"
  by (simp add: tiny_open_def)


theorem read_returns_content_witness:
  "adfimage_read tiny_lib (abspath ([''docs''] @ [''a.txt''])) ''------'' 100 2 tiny_image_moved =
    Some (3, ''iga---'', tiny_image\<lparr>vol := Some (tiny_volume\<lparr>curDirPtr := 920\<rparr>), cwd := ''/docs/sub''\<rparr>)"
  using read_returns_content [OF tiny_nav tiny_files tiny_moved(1-3), of "[''docs'']" "''a.txt''"
      "tiny_volume\<lparr>curDirPtr := 900\<rparr>" "''amiga''" 100 2 3 "''------''"] by (simp add: tiny_moved(4))

theorem read_missing_file_witness:
  "adfimage_read tiny_lib (abspath ([''docs''] @ [''new''])) [] 1 0 tiny_image =
    Some (- ENOENT, [], tiny_image\<lparr>vol := Some (tiny_volume\<lparr>curDirPtr := 900\<rparr>), cwd := ''/docs''\<rparr>)"
  using read_missing_file [OF tiny_files, of tiny_image tiny_volume "[''docs'']" "''new''" True
      "tiny_volume\<lparr>curDirPtr := 900\<rparr>" "[''docs'']"] by simp

theorem truncate_keeps_prefix_witness:
  "\<exists>v'. adfimage_file_truncate tiny_lib (abspath ([''docs''] @ [''a.txt''])) 0x100000000 tiny_image =
      Some (0, tiny_image\<lparr>vol := Some v'\<rparr>) \<and> curDirPtr v' = 880 \<and> tiny_content v' 900 ''a.txt'' = Some []"
proof -
  have "\<exists>v'. adfimage_file_truncate tiny_lib (abspath ([''docs''] @ [''a.txt''])) 0x100000000 tiny_image =
      Some (0, (homed tiny_lib tiny_image)\<lparr>vol := Some v'\<rparr>) \<and>
    in_sync tiny_lib ((homed tiny_lib tiny_image)\<lparr>vol := Some v'\<rparr>) \<and>
    (in_sync tiny_lib tiny_image \<longrightarrow> homed tiny_lib tiny_image = tiny_image \<and> curDirPtr v' = curDirPtr tiny_volume) \<and>
    (\<forall>d m. tiny_content v' d m =
      (if d = curDirPtr (tiny_volume\<lparr>curDirPtr := 900\<rparr>) \<and> m = ''a.txt''
       then Some (take (unat (0x100000000 :: 64 word) mod 2 ^ 32) ''amiga'')
       else tiny_content (tiny_volume\<lparr>curDirPtr := 900\<rparr>) d m))"
    by (rule truncate_keeps_prefix [OF tiny_nav tiny_truncates in_sync_cwd_ok [OF tiny_in_sync], OF _ _ _ _ _ _ tiny_opens])
      simp_all
  then show ?thesis using tiny_in_sync by auto
qed

theorem size_and_offset_wrap_witness:
  "adfimage_read tiny_lib ''/readme'' ''-----'' 2 0x100000001 tiny_image =
   adfimage_read tiny_lib ''/readme'' ''-----'' 2 1 tiny_image"
  using size_and_offset_wrap [of 2 2 "0x100000001" 1 tiny_lib "''/readme''" "''-----''" tiny_image] by simp

theorem readlink_target_witness:
  "\<exists>buf. adfimage_readlink tiny_lib (abspath ([] @ [''link''])) ''------------'' 12 tiny_image =
    Some (0, buf, tiny_image) \<and> cstr buf = ''docs/a.txt''"
proof -
  have "\<exists>buf. adfimage_readlink tiny_lib (abspath ([] @ [''link''])) ''------------'' 12 tiny_image =
      Some (0, buf, homed tiny_lib tiny_image) \<and>
    in_sync tiny_lib (homed tiny_lib tiny_image) \<and> (in_sync tiny_lib tiny_image \<longrightarrow> homed tiny_lib tiny_image = tiny_image) \<and>
    length buf = length ''------------'' \<and> drop 12 buf = drop 12 ''------------'' \<and>
    (if length (b_realName (no_block\<lparr>b_secType := 3, b_realName := ''docs/a.txt''\<rparr>)) < 12
     then cstr buf = b_realName (no_block\<lparr>b_secType := 3, b_realName := ''docs/a.txt''\<rparr>)
     else take 12 buf = take 12 (b_realName (no_block\<lparr>b_secType := 3, b_realName := ''docs/a.txt''\<rparr>)) \<and>
       NUL \<notin> set (take 12 buf))"
    by (rule readlink_target [OF tiny_nav in_sync_cwd_ok [OF tiny_in_sync], where v = tiny_volume and w = tiny_volume and rc = 0
          and s = 902 and parent = "no_block\<lparr>b_secType := 1, b_hashTable := [880]\<rparr>"])
      (simp_all add: tiny_consts_def tiny_read_block_def tiny_name_to_block_def,
        simp_all add: tiny_volume_def tiny_data_def)
  then show ?thesis using tiny_in_sync by auto
qed

subsection \<open>Creating, removing, renaming\<close>

theorem entries_changed_in_parent_witness:
  "adfimage_create tiny_lib (abspath ([''docs''] @ [''new''])) 0 tiny_image =
      Some (0, tiny_image\<lparr>vol := Some (tiny_put_file (tiny_put_dir tiny_volume 900
        [tiny_entry (- 3) ''a.txt'' 910, tiny_entry 2 ''sub'' 920, tiny_entry (- 3) ''new'' 0]) (900, ''new'') []), cwd := ''/docs''\<rparr>) \<and>
   adfimage_unlink tiny_lib (abspath ([''docs''] @ [''new''])) tiny_image = Some (1, tiny_image\<lparr>cwd := ''/docs''\<rparr>)"
proof -
  have put: "(tiny_put_file (tiny_put_dir (tiny_volume\<lparr>curDirPtr := 900\<rparr>) s es) k bs)\<lparr>curDirPtr := 880\<rparr> =
      tiny_put_file (tiny_put_dir tiny_volume s es) k bs" for s es k bs
    by (simp add: tiny_put_file_def tiny_put_dir_def tiny_volume_def)
  have vol: "tiny_image\<lparr>vol := Some tiny_volume, cwd := c\<rparr> = tiny_image\<lparr>cwd := c\<rparr>" for c
    by (simp add: tiny_image_def)
  from entries_changed_in_parent [of tiny_image tiny_volume "[]" "[''docs'']" "''new''" tiny_lib True
      "tiny_volume\<lparr>curDirPtr := 900\<rparr>" "[''docs'']", OF _ _ _ _ _ _ _ _ refl refl, of 0]
  show ?thesis by (simp add: tiny_create_file_def tiny_remove_def put vol abspath_def)
qed

theorem repeated_create_grows_cwd_witness:
  "create_all tiny_lib [''docs''] (replicate 300 ''new'') tiny_image = None"
proof -
  have "length (concat (replicate n ''/docs'')) = 5 * n" for n
    by (induction n) auto
  then have len: "length (abspath (concat (replicate n [''docs'']))) = (if n = 0 then 1 else 5 * n)" for n
    by (simp add: abspath_def)
  have names: "\<forall>c\<in>set (replicate 300 ''new''). is_name c"
    by (metis tiny_names(6) in_set_replicate)
  have lr: "length (replicate 300 ''new'') = 300" by (simp only: length_replicate)
  from repeated_create_grows_cwd [OF tiny_nav tiny_creates, of tiny_image tiny_volume "[''docs'']"
      "replicate 300 ''new''" "tiny_volume\<lparr>curDirPtr := 900\<rparr>", OF _ _ _ _ _ names, unfolded lr len]
  show ?thesis by simp
qed

theorem rename_returns_witness:
  "adfimage_file_rename tiny_lib (abspath ([''docs''] @ [''a.txt''])) (abspath ([''..old''] @ [''a.txt''])) tiny_image = None \<and>
   (\<exists>r im'. adfimage_file_rename tiny_lib (abspath ([''docs''] @ [''a.txt''])) (abspath ([''new''] @ [''a.txt''])) tiny_image_moved =
      Some (Ret (r, im')))"
proof -
  have "is_name ''..old''" by (simp add: is_name_def)
  moreover have "dotted [''..old'']" "\<not> dotted [''docs'']" "\<not> dotted [''new'']"
    by (simp_all add: dotted_def dots_first_def)
  ultimately show ?thesis
    using rename_returns [of "[''docs'']" "''a.txt''" "[''..old'']" "''a.txt''" tiny_image tiny_lib]
      rename_returns [of "[''docs'']" "''a.txt''" "[''new'']" "''a.txt''" tiny_image_moved tiny_lib
        "tiny_volume\<lparr>curDirPtr := 900\<rparr>"] tiny_nav tiny_moved(1-3)
    by (auto simp: abspath_def)
qed

text \<open>A rename that succeeds: \<open>/docs/a.txt\<close> to \<open>/new\<close>.\<close>

lemma tiny_renamed:
  "\<exists>im. adfimage_file_rename tiny_lib (abspath ([''docs''] @ [''a.txt''])) (abspath ([] @ [''new''])) tiny_image =
    Some (Ret (0, im))"
proof -
  have root: "tiny_read_block tiny_volume 880 = (0, no_block\<lparr>b_secType := 1, b_hashTable := [880]\<rparr>)"
    by (simp add: tiny_read_block_def tiny_volume_def tiny_data_def)
  have "\<not> dotted [''docs'']" "\<not> dotted []" by (simp_all add: dotted_def dots_first_def)
  moreover have "adfimage_getdentry tiny_lib (abspath [''docs'']) tiny_image =
      Some (\<lparr>dtype = ADFVOLUME_DENTRY_DIRECTORY, adflib_entry = tiny_entry 2 ''docs'' 900\<rparr>, tiny_image)"
    using getdentry_absolute [OF tiny_nav _ _ tiny_in_sync, of "[]" "''docs''" tiny_volume True tiny_volume "[]"]
    by (simp add: lookup_entry_def dentry_type_of_def tiny_consts_def)
  moreover have "adfimage_getdentry tiny_lib (abspath []) tiny_image =
      Some (\<lparr>dtype = ADFVOLUME_DENTRY_DIRECTORY, adflib_entry =
        no_entry\<lparr>e_type := 1, e_name := [], e_access := 0, e_sector := 880, e_real := 0, e_parent := 0\<rparr>\<rparr>, tiny_image)"
    using root by (simp add: adfimage_getdentry_def adfimage_get_root_dentry_def tiny_consts_def no_block_def)
  ultimately show ?thesis
    using rename_canonical [of "[''docs'']" "''a.txt''" "[]" "''new''" tiny_image tiny_lib]
    by (simp add: rename_entries_def returns_def parent_sector_def tiny_rename_def tiny_is_dir_def Let_def)
qed


subsection \<open>Opening and closing\<close>

definition tiny_mount :: "tiny mountlib" where
  "tiny_mount =
     \<lparr>adfLibInit = 0,
      adfDevOpen = (\<lambda>f m. Some \<lparr>dev_name = f, dev_readOnly = (m = ADF_ACCESS_MODE_READONLY)\<rparr>),
      adfDevMount = (\<lambda>d. (0, d)),
      adfVolMount = (\<lambda>d p m. if p = 0 then Some tiny_volume else None),
      stat_blksize = (\<lambda>f. 4096)\<rparr>"

definition tiny_events :: "adf_event list" where
  "tiny_events = [LibInit, SetIgnoreChecksum False, DevOpen, DevMount, VolMount, ImageAlloc]"

lemma tiny_bitmap: "isBlockAllocationBitmapValid tiny_lib tiny_volume"
  by (simp add: isBlockAllocationBitmapValid_def tiny_read_block_def tiny_consts_def no_block_def)
    (simp add: tiny_volume_def tiny_data_def no_block_def)

lemma tiny_opened:
  "adfimage_open tiny_mount tiny_lib ''work.adf'' 0 False False [] = (Some tiny_image, tiny_events)"
  by (simp add: open_defs tiny_mount_def tiny_bitmap Let_def tiny_events_def access_mode_def)
    (simp add: tiny_image_def)

theorem open_all_or_nothing_witness: "res_run nothing tiny_events everything"
  using open_all_or_nothing [OF tiny_opened] by simp

theorem open_then_close_witness:
  "res_run nothing (tiny_events @ [VolUnMount, DevUnMount, DevClose, ImageFree, LibCleanUp]) nothing"
  using open_then_close [OF tiny_opened same_mount_refl, of None "[VolUnMount, DevUnMount, DevClose, ImageFree, LibCleanUp]"]
  by (simp add: adfimage_close_def)

theorem bitmap_guards_writing_witness:
  "\<exists>im evs. adfimage_open tiny_mount tiny_lib ''work.adf'' 0 False False [] = (Some im, evs) \<and> vol im = Some tiny_volume"
  unfolding bitmap_guards_writing [OF tiny_const]
  using tiny_bitmap bitmap_check [OF tiny_const, of tiny_volume]
  by (auto simp: tiny_mount_def malloc_def split: prod.split)

subsection \<open>Handlers\<close>

lemma tiny_walk_to: "walk_to tiny_lib tiny_volume [''docs''] = (True, tiny_volume\<lparr>curDirPtr := 900\<rparr>, [''docs''])"
  by (simp add: walk_to_def)

text \<open>A request that changes the state: volume and \<open>cwd\<close>.\<close>

lemma tiny_created:
  "adffs_oper tiny_lib tiny_env (Create (abspath ([''docs''] @ [''new''])) 0) tiny_state =
    Some (Ret (Status 0, tiny_state\<lparr>image := Some (tiny_image\<lparr>vol := Some (adfToRootDir tiny_lib
      (snd (tiny_create_file (tiny_volume\<lparr>curDirPtr := 900\<rparr>) 900 ''new''))), cwd := ''/docs''\<rparr>)\<rparr>))"
  using create_at [of tiny_image tiny_volume "[]" "[''docs'']" "''new''" tiny_lib True "tiny_volume\<lparr>curDirPtr := 900\<rparr>"
      "[''docs'']" 0]
  by (simp add: adffs_create_def on_image_def adffs_get_state_def reply_with_def returns_def tiny_create_file_def abspath_def)

theorem handlers_keep_mount_witness:
  "\<exists>st' im'. adffs_oper tiny_lib tiny_env (Create (abspath ([''docs''] @ [''new''])) 0) tiny_state = Some (Ret (Status 0, st')) \<and>
    image st' = Some im' \<and> cwd im' = ''/docs'' \<and> vol im' \<noteq> Some tiny_volume \<and>
    mountpoint st' = Some ''/mnt'' \<and> filename im' = ''work.adf'' \<and> fstat_blksize im' = 4096"
proof -
  let ?v = "adfToRootDir tiny_lib (snd (tiny_create_file (tiny_volume\<lparr>curDirPtr := 900\<rparr>) 900 ''new''))"
  let ?im = "tiny_image\<lparr>vol := Some ?v, cwd := ''/docs''\<rparr>"
  note keep = handlers_keep_mount [OF tiny_created]
  have "tiny_list ?v 900 \<noteq> tiny_list tiny_volume 900" by (simp add: tiny_create_file_def)
  then have "?v \<noteq> tiny_volume" by metis
  then have v: "vol ?im \<noteq> Some tiny_volume" by (simp del: tiny_simps)
  have "filename ?im = filename tiny_image \<and> fstat_blksize ?im = fstat_blksize tiny_image"
    using keep [THEN conjunct2, THEN conjunct2, rule_format, of tiny_image ?im] by simp
  then have im: "filename ?im = ''work.adf''" "fstat_blksize ?im = 4096" by (simp_all add: tiny_image_def)
  have m: "mountpoint (tiny_state\<lparr>image := Some ?im\<rparr>) = Some ''/mnt''"
    using keep [THEN conjunct1] by (simp add: tiny_state_def)
  show ?thesis
    by (intro exI [of _ "tiny_state\<lparr>image := Some ?im\<rparr>"] exI [of _ ?im] conjI,
        rule tiny_created, simp, simp, rule v, rule m, rule im(1), rule im(2))
qed

theorem readdir_lists_witness:
  "\<exists>st'. adffs_readdir tiny_lib (abspath [''docs'']) (list_filler 3) [] tiny_state =
    Some ((- EAGAIN, [''.'', ''..'', ''a.txt'']), st')"
  using readdir_lists [OF tiny_nav tiny_represents _ _ tiny_walk_to, of _ 3] by simp

theorem getattr_missing_witness:
  "\<exists>st'. adffs_getattr tiny_lib tiny_env (abspath ([''docs''] @ [''new''])) tiny_state = Some ((- ENOENT, zero_stat), st')"
  by (rule getattr_missing [OF tiny_nav tiny_represents _ _ _ tiny_walk_to]) (simp_all add: abspath_def)

theorem root_size_after_failed_read_witness:
  "\<exists>r st' n sb st''.
    adffs_read tiny_lib (abspath ([''docs''] @ [''new''])) [] 1 0 tiny_state = Some (r, st') \<and>
    adffs_getattr tiny_lib tiny_env ''/'' st' = Some ((n, sb), st'') \<and> fst r = - ENOENT \<and> st_size sb = 2"
proof -
  let ?im = "tiny_image\<lparr>vol := Some (tiny_volume\<lparr>curDirPtr := 900\<rparr>), cwd := ''/docs''\<rparr>"
  let ?st = "tiny_state\<lparr>image := Some ?im\<rparr>"
  have "adfimage_read tiny_lib (abspath ([''docs''] @ [''new''])) [] 1 0 tiny_image = Some (- ENOENT, [], ?im)"
    using read_missing [OF tiny_files, of tiny_image tiny_volume "[''docs'']" "''new''" True
      "tiny_volume\<lparr>curDirPtr := 900\<rparr>" "[''docs'']"] by simp
  then have run: "adffs_read tiny_lib (abspath ([''docs''] @ [''new''])) [] 1 0 tiny_state = Some ((- ENOENT, []), ?st)"
    by (simp add: adffs_read_def on_image_def adffs_get_state_def)
  have "\<exists>n sb. adffs_getattr tiny_lib tiny_env ''/'' ?st = Some ((n, sb), ?st)"
    by (simp add: adffs_getattr_def on_image_def adffs_get_state_def getattr_image_def pathstr_get_relative_def
        adfimage_get_root_dentry_def adfimage_count_cwd_entries_def Let_def split_beta split: if_split)
  then obtain n sb where attr: "adffs_getattr tiny_lib tiny_env ''/'' ?st = Some ((n, sb), ?st)" by blast
  have "fst (- ENOENT, []) = - ENOENT \<and> n = 0 \<and>
      st_size sb = int (length (adfGetDirEnt tiny_lib (tiny_volume\<lparr>curDirPtr := 900\<rparr>) (curDirPtr (tiny_volume\<lparr>curDirPtr := 900\<rparr>))))"
    using root_size_after_failed_read [OF tiny_files _ _ _ _ _ _ _ _ run attr, where im = tiny_image
        and v = tiny_volume and w = "tiny_volume\<lparr>curDirPtr := 900\<rparr>"] by simp
  with run attr show ?thesis by auto
qed

theorem getattr_well_formed_witness:
  "\<exists>sb. adffs_getattr tiny_lib tiny_env ''/'' tiny_state = Some ((0, sb), tiny_state) \<and> stat_well_formed sb \<and> st_size sb = 3"
proof -
  have "\<exists>sb. adffs_getattr tiny_lib tiny_env ''/'' tiny_state = Some ((0, sb), tiny_state) \<and> st_size sb = 3"
    by (simp add: adffs_getattr_def on_image_def adffs_get_state_def getattr_image_def pathstr_get_relative_def
        adfimage_get_root_dentry_def adfimage_count_cwd_entries_def Let_def split_beta finish_stat_def split: if_split)
  then obtain sb where "adffs_getattr tiny_lib tiny_env ''/'' tiny_state = Some ((0, sb), tiny_state)" "st_size sb = 3" by blast
  with getattr_well_formed [OF this(1)] show ?thesis by blast
qed

subsection \<open>The command line and the program\<close>

definition tiny_opts :: "cmd_opt list" where
  "tiny_opts = [Partition ''3'', Foreground, Mount_option ''ro'']"

definition tiny_words :: "string list" where
  "tiny_words = [''fuseadf''] @ all_words tiny_opts @ [''work.adf'', ''/mnt'']"

lemma tiny_words_eq: "tiny_words = [''fuseadf'', ''-p'', ''3'', ''-f'', ''-o'', ''ro'', ''work.adf'', ''/mnt'']"
  by (simp add: tiny_words_def tiny_opts_def all_words_def)

lemma tiny_number: "strtoul ''3'' = (True, 3)"
  by (simp add: strtoul_def decimal_def is_digit_def is_blank_def)

lemma tiny_opts_valid: "list_all valid_opt tiny_opts" "\<not> is_option ''work.adf''" "\<not> is_option ''/mnt''"
  by (simp_all add: tiny_opts_def tiny_number is_option_def)

theorem parse_args_documented_witness:
  "\<exists>s k. parse_args Some (length tiny_words) (vec tiny_words 1) = Some (True, s) \<and>
    adf_volume (options s) = 3 \<and> \<not> write_mode (options s) \<and> adf_filename (options s) = Some ''work.adf'' \<and>
    argv s = vec [''fuseadf'', ''-f'', ''-o'', ''ro'', ''/mnt''] k"
  using parse_args_documented [OF tiny_opts_valid, of Some "''fuseadf''", folded tiny_words_def]
  by (auto simp: tiny_opts_def tiny_number all_words_def default_options_def)

theorem parse_args_needs_two_words_witness:
  "\<exists>s. parse_args Some 5 (vec [''fuseadf'', ''-l'', ''my.log'', ''work.adf'', ''/mnt''] 1) = Some (False, s)"
  using parse_args_needs_two_words [of "[Log_default]" "[''my.log'', ''work.adf'', ''/mnt'']" Some "''fuseadf''"]
  by (auto simp: all_words_def is_option_def eval_nat_numeral)

theorem parse_args_in_bounds_witness:
  "\<exists>s. parse_args Some (length tiny_words) (vec tiny_words 1) = Some (True, s) \<and> adf_volume (options s) \<le> 10 \<and>
    adf_filename (options s) \<noteq> None"
proof -
  from parse_args_words [OF tiny_opts_valid, of Some "''fuseadf''", folded tiny_words_def] obtain s where
    s: "parse_args Some (length tiny_words) (vec tiny_words 1) = Some (True, s)"
    "\<not> help_set (options s)" "\<not> version_set (options s)"
    by (auto simp: default_options_def)
  with parse_args_in_bounds [of Some tiny_words] show ?thesis by auto
qed

lemma four: "Suc (Suc (Suc (Suc 0))) = 4"
  by simp

theorem attached_argument_drops_word_witness:
  "(\<exists>s k. parse_args Some 6 (vec [''fuseadf'', ''-f'', ''-lmy.log'', ''-d'', ''work.adf'', ''/mnt''] 1) = Some (True, s) \<and>
     logging_file (options s) = Some ''my.log'' \<and> argv s = vec [''fuseadf'', ''-d'', ''/mnt''] k) \<and>
   (\<exists>s. parse_args Some 4 (vec [''fuseadf'', ''-p3'', ''work.adf'', ''/mnt''] 1) = Some (False, s)) \<and>
   (\<exists>s k. parse_args Some 5 (vec [''fuseadf'', ''-lmy.log'', ''-f'', ''work.adf'', ''/mnt''] 1) = Some (True, s) \<and>
     argv s = vec [''-f'', ''/mnt''] k)"
proof (intro conjI)
  show "\<exists>s k. parse_args Some 6 (vec [''fuseadf'', ''-f'', ''-lmy.log'', ''-d'', ''work.adf'', ''/mnt''] 1) = Some (True, s) \<and>
     logging_file (options s) = Some ''my.log'' \<and> argv s = vec [''fuseadf'', ''-d'', ''/mnt''] k"
    using attached_argument_drops_word [of "[Foreground]" "[Debug]" "CHR ''l''" "''my.log''" "''work.adf''" "''/mnt''" "[''-f'']"
        "[''fuseadf'', ''-f'', ''-lmy.log'', ''-d'', ''work.adf'', ''/mnt'']" "''fuseadf''", OF _ _ _ _ _ _ _ _ refl refl, of Some]
    by (auto simp: all_words_def is_option_def attached_ok_def apply_attached_def eval_nat_numeral)
  show "\<exists>s. parse_args Some 4 (vec [''fuseadf'', ''-p3'', ''work.adf'', ''/mnt''] 1) = Some (False, s)"
    using attached_argument_drops_word [of "[]" "[]" "CHR ''p''" "''3''" "''work.adf''" "''/mnt''" "[]"
        "[''fuseadf'', ''-p3'', ''work.adf'', ''/mnt'']" "''fuseadf''", OF _ _ _ _ _ _ _ _ refl refl, of Some]
    by (auto simp: all_words_def is_option_def attached_ok_def tiny_number four)
  show "\<exists>s k. parse_args Some 5 (vec [''fuseadf'', ''-lmy.log'', ''-f'', ''work.adf'', ''/mnt''] 1) = Some (True, s) \<and>
     argv s = vec [''-f'', ''/mnt''] k"
    using attached_argument_drops_word [of "[]" "[Foreground]" "CHR ''l''" "''my.log''" "''work.adf''" "''/mnt''" "[]"
        "[''fuseadf'', ''-lmy.log'', ''-f'', ''work.adf'', ''/mnt'']" "''fuseadf''", OF _ _ _ _ _ _ _ _ refl refl, of Some]
    by (auto simp: all_words_def is_option_def attached_ok_def apply_attached_def eval_nat_numeral)
qed

definition tiny_system :: system where
  "tiny_system =
     \<lparr>getuid = 1000, geteuid = 1000, allow_use_as_root = False, realpath = Some, fopen_error = (\<lambda>_. None),
      FUSE_MAJOR_VERSION = 2, FUSE_MINOR_VERSION = 9, fuse_version = 29,
      ADFLIB_VERSION = ''0.9.0'', ADFLIB_DATE = ''2024'', adfGetVersionNumber = ''0.9.0'', adfGetVersionDate = ''2024''\<rparr>"

lemma tiny_opened_ro:
  "\<exists>evs. adfimage_open tiny_mount tiny_lib ''work.adf'' 0 True False [] =
    (Some (tiny_image\<lparr>dev := Some \<lparr>dev_name = ''work.adf'', dev_readOnly = True\<rparr>\<rparr>), evs)"
  by (simp add: open_defs tiny_mount_def Let_def access_mode_def) (simp add: tiny_image_def)

abbreviation (input) tiny_log_opts :: "cmd_opt list" where
  "tiny_log_opts \<equiv> [Log_default, Mount_option ''ro'']"

lemma tiny_logfile:
  "\<exists>ls. open_logfile tiny_system (fold apply_opt tiny_log_opts default_options) log_start = Some (Some (Some 0), ls)"
  by (simp add: open_logfile_def default_options_def tiny_system_def log_start_def adffs_log_open_Some
      print_out_some message_texts)

theorem main_starts_fuse_witness:
  "\<exists>k st ls evs. fuseadf_main tiny_system tiny_mount tiny_lib 6
      (vec [''fuseadf'', ''-l'', ''-o'', ''ro'', ''work.adf'', ''/mnt''] 1) [] =
    Some (Fuse_main 5 (vec [''fuseadf'', ''-o'', ''ro'', ''/mnt'', ''-s''] k) st, ls, evs)"
proof -
  obtain im evs where op: "adfimage_open tiny_mount tiny_lib ''work.adf'' 0 True False [] = (Some im, evs)"
    using tiny_opened_ro by blast
  obtain ls where "open_logfile tiny_system (fold apply_opt tiny_log_opts default_options) log_start = Some (Some (Some 0), ls)"
    using tiny_logfile by blast
  from main_starts_fuse [OF _ tiny_opts_valid(2,3) _ _ refl this _ refl, where prog = "''fuseadf''" and M = tiny_mount
      and L = tiny_lib and h = "[]" and im = im and evs = evs] op show ?thesis
    by (auto simp: all_words_def eval_nat_numeral tiny_system_def default_options_def)
qed

abbreviation (input) tiny_command :: "string list" where
  "tiny_command \<equiv> [''fuseadf'', ''-l'', ''-o'', ''ro'', ''work.adf'', ''/mnt'']"

lemma tiny_main:
  obtains n a st ls evs where
    "fuseadf_main tiny_system tiny_mount tiny_lib (length tiny_command) (vec tiny_command 1) [] =
      Some (Fuse_main n a st, ls, evs)"
    "log_messages [(''hello'', [])] ls = Some (log_added ''hello\<newline>'' ls)"
proof -
  obtain im evs where op: "adfimage_open tiny_mount tiny_lib ''work.adf'' 0 True False [] = (Some im, evs)"
    using tiny_opened_ro by blast
  obtain ls0 where log: "open_logfile tiny_system (fold apply_opt tiny_log_opts default_options) log_start =
      Some (Some (Some 0), ls0)"
    using tiny_logfile by blast
  from main_starts [OF _ tiny_opts_valid(2,3) _ _ refl log _ refl, where prog = "''fuseadf''" and M = tiny_mount
      and L = tiny_lib and h = "[]" and im = im and evs = evs] op obtain n a st ls where
    main: "fuseadf_main tiny_system tiny_mount tiny_lib (length tiny_command) (vec tiny_command 1) [] =
      Some (Fuse_main n a st, ls, evs)"
    and flog: "flog ls = Some 0"
    by (auto simp: all_words_def tiny_system_def default_options_def)
  from main_outcome [of tiny_system tiny_mount tiny_lib tiny_command "[]"] main have "log_ready ls"
    by (auto simp: outcome_holds_def log_held_ready)
  with flog have "log_messages [(''hello'', [])] ls = Some (log_added ''hello\<newline>'' ls)"
    by (simp add: adffs_log_info_eq format_eval)
  with main show thesis by (rule that)
qed

theorem program_releases_all_witness:
  "\<exists>n a st ls evs st' ls' evs'. fuseadf_main tiny_system tiny_mount tiny_lib (length tiny_command) (vec tiny_command 1) [] =
      Some (Fuse_main n a st, ls, evs) \<and>
    adffs_destroy st (log_added ''hello\<newline>'' ls) = Some (st', ls', evs') \<and> res_run nothing (evs @ evs') nothing \<and>
    all_closed ls'"
proof -
  obtain n a st ls evs where
    main: "fuseadf_main tiny_system tiny_mount tiny_lib (length tiny_command) (vec tiny_command 1) [] =
      Some (Fuse_main n a st, ls, evs)"
    and logged: "log_messages [(''hello'', [])] ls = Some (log_added ''hello\<newline>'' ls)" by (rule tiny_main)
  have run: "runs (adffs_oper tiny_lib tiny_env) [Chown ''/readme'' 0 0] (adffs_init st) = Some (Ret ([Status 0], st))"
    by (simp add: adffs_chown_def reply_with_def returns_def adffs_init_def)
  from program_releases_all [OF main run logged] main show ?thesis by blast
qed

subsection \<open>The log\<close>

theorem log_keeps_messages_witness:
  "\<exists>h ls1 ls2 ls3. adffs_log_open (\<lambda>_. None) ''a.log'' log_start = Some (Some h, ls1) \<and>
    log_messages [(''n = %d'', [Int32 (- 7)]), (''mask 0x%08x'', [Int32 255])] ls1 = Some ls2 \<and>
    adffs_log_close ls2 = Some ls3 \<and>
    streams ls3 = [\<lparr>s_path = ''a.log'', s_text = ''n = -7\<newline>mask 0x000000ff\<newline>'', s_open = False\<rparr>]"
proof -
  have six: "replicate 6 c = [c, c, c, c, c, c]" for c :: char by (simp add: numeral_eq_Suc)
  have "map (\<lambda>(fmt, args). format fmt args) [(''n = %d'', [Int32 (- 7)]), (''mask 0x%08x'', [Int32 255])] =
      map Some [''n = -7'', ''mask 0x000000ff'']"
    by (simp add: format_eval signed_text_def unsigned_text_def pad_def digits.simps digit_char_def six
        char_of_eq_iff)
  from log_keeps_messages [of "\<lambda>_. None" "''a.log''", OF refl this, of log_start] show ?thesis
    by (simp add: log_start_def del: log_messages.simps)
qed

end
