(* ===== verification/Debug_Util.thy ===== *)
theory Debug_Util
  imports Log "HOL-Library.Multiset"
begin

section \<open>Helpers for debugging: \<open>src/src/util.c\<close>\<close>

text \<open>
  Two static functions for debugging that nothing calls: a checksum over a buffer and the size of
  a file. The buffer is the list of its bytes and reading behind its end is undefined
  (\<open>None\<close>); the file is read through the streams of \<open>Log\<close>, with what \<open>fseek\<close> and \<open>ftell\<close> answer as
  a parameter.

  The lemmas: the checksum is the exclusive or of the bytes, so that it composes over concatenation
  and does not notice their order, and is defined exactly when the buffer is long enough; every
  error of the size closes its stream and prints one message, and a size leaves its stream open.
\<close>

subsection \<open>\<open>checksum\<close>\<close>

text \<open>The pointer is an index into the buffer; \<open>size\<close> is decremented before each byte.\<close>

function checksum_loop :: "8 word list \<Rightarrow> nat \<Rightarrow> 64 word \<Rightarrow> 8 word \<Rightarrow> 8 word option" where
  "checksum_loop buf dataptr sz chksum =
     (if sz = 0 then Some chksum
      else if dataptr < length buf
           then checksum_loop buf (Suc dataptr) (sz - 1) (xor chksum (buf ! dataptr))
      else None)"
  by pat_completeness auto
termination
  by (relation "measure (\<lambda>(buf, dataptr, sz, chksum). unat sz)") (auto intro: measure_unat)

declare checksum_loop.simps [simp del]

definition checksum :: "8 word list \<Rightarrow> 64 word \<Rightarrow> 32 word option" where
  "checksum buf sz = map_option ucast (checksum_loop buf 0 sz 0)"

abbreviation xor_all :: "8 word list \<Rightarrow> 8 word" where
  "xor_all bs \<equiv> foldr xor bs 0"

lemma checksum_loop_xor:
  "checksum_loop buf i sz c =
     (if sz = 0 \<or> i + unat sz \<le> length buf
      then Some (xor c (xor_all (take (unat sz) (drop i buf)))) else None)"
proof (induction buf i sz c rule: checksum_loop.induct)
  case (1 buf i sz c)
  consider "sz = 0" | "sz \<noteq> 0" "length buf \<le> i" | "sz \<noteq> 0" "i < length buf"
    by linarith
  then show ?case
  proof cases
    case 1
    then show ?thesis by (simp add: checksum_loop.simps [of buf i 0])
  next
    case 2
    from \<open>sz \<noteq> 0\<close> have "0 < unat sz" by (simp add: unat_gt_0)
    with 2 show ?thesis by (simp add: checksum_loop.simps [of buf i sz])
  next
    case 3
    then obtain n where n: "unat sz = Suc n" "unat (sz - 1) = n"
      by (metis diff_Suc_1 not0_implies_Suc unat_eq_0 unat_minus_one)
    have step: "checksum_loop buf i sz c = checksum_loop buf (Suc i) (sz - 1) (xor c (buf ! i))"
      using 3 by (simp add: checksum_loop.simps [of buf i sz])
    have "take (Suc n) (drop i buf) = buf ! i # take n (drop (Suc i) buf)"
      using 3 by (simp add: Cons_nth_drop_Suc [symmetric])
    moreover have "n = 0" if "sz - 1 = 0"
      using that n by simp
    ultimately show ?thesis
      unfolding step "1.IH" [OF 3] using 3 n by (auto simp: xor.assoc)
  qed
qed

text \<open>
  C38: \<open>checksum\<close> is defined exactly when the buffer has at least \<open>size\<close> bytes, and is then the exclusive
  or of the first \<open>size\<close> of them, extended by zeros to 32 bits.
\<close>

theorem checksum_is_xor:
  "checksum buf sz =
     (if unat sz \<le> length buf then Some (ucast (xor_all (take (unat sz) buf))) else None)"
  by (simp add: checksum_def checksum_loop_xor)

lemma xor_all_append: "xor_all (as @ bs) = xor (xor_all as) (xor_all bs)"
  by (induction as) (simp_all add: xor.assoc)

lemma xor_all_mset: "mset as = mset bs \<Longrightarrow> xor_all as = xor_all bs"
  by (simp add: foldr_conv_fold)
    (rule fold_permuted_eq [where P = "\<lambda>_. True"], auto simp: xor.left_commute)

lemma checksum_unordered:
  assumes "mset as = mset bs" and "length as < 2 ^ 64"
  shows "checksum as (of_nat (length as)) = checksum bs (of_nat (length bs))"
proof -
  from assms(1) have "length as = length bs" "xor_all as = xor_all bs"
    by (rule mset_eq_length, rule xor_all_mset)
  with assms(2) show ?thesis by (simp add: checksum_def checksum_loop_xor unat_of_nat)
qed

subsection \<open>\<open>getFileSize\<close>\<close>

text \<open>What the C library answers on a file: whether it can be opened, \<open>fseek\<close> to its end, and \<open>ftell\<close> there.\<close>

record file_answers =
  opens :: bool
  seek_end :: "32 word"
  tell :: "64 word"

definition open_for_reading :: "string \<Rightarrow> log_state \<Rightarrow> nat \<times> log_state" where
  "open_for_reading path ls =
     (length (streams ls), ls\<lparr>streams := streams ls @ [\<lparr>s_path = path, s_text = [], s_open = True\<rparr>]\<rparr>)"

definition getFileSize ::
  "(string \<Rightarrow> file_answers) \<Rightarrow> string \<Rightarrow> log_state \<Rightarrow> (64 word \<times> log_state) option" where
  "getFileSize A filename ls =
     (if \<not> opens (A filename) then do {
        ls1 \<leftarrow> print_err ''Cannot open the file: %s\<newline>'' [Str (Some filename)] ls;
        Some (-1, ls1)
      }
      else let (file, ls0) = open_for_reading filename ls in
      if seek_end (A filename) \<noteq> 0 then do {
        ls1 \<leftarrow> print_err ''Cannot fseek the file: %s\<newline>'' [Str (Some filename)] ls0;
        ls2 \<leftarrow> fclose file ls1;
        Some (-1, ls2)
      }
      else let flen = tell (A filename) in
      if sint flen < 0 then do {
        ls1 \<leftarrow> print_err ''Incorrect size (%ld) of the file: %s.\<newline>'' [Int64 flen, Str (Some filename)] ls0;
        ls2 \<leftarrow> fclose file ls1;
        Some (-1, ls2)
      }
      else Some (flen, ls0))"

lemma file_size_texts:
  "format ''Cannot open the file: %s\<newline>'' [Str (Some p)] = Some (''Cannot open the file: '' @ p @ ''\<newline>'')"
  "format ''Cannot fseek the file: %s\<newline>'' [Str (Some p)] = Some (''Cannot fseek the file: '' @ p @ ''\<newline>'')"
  "format ''Incorrect size (%ld) of the file: %s.\<newline>'' [Int64 n, Str (Some p)] =
    Some (''Incorrect size ('' @ signed_text False 0 (sint n) @ '') of the file: '' @ p @ ''.\<newline>'')"
  by (simp_all add: format_eval)

text \<open>
  The size of a file is returned whatever happens, or -1. With -1 a message was printed and no more
  streams are open than before; with a size nothing was printed, and one more stream is left open.
\<close>

lemma file_size_streams:
  fixes A filename
  defines "known \<equiv> opens (A filename) \<and> seek_end (A filename) = 0 \<and> 0 \<le> sint (tell (A filename))"
  shows "\<exists>r ls'. getFileSize A filename ls = Some (r, ls') \<and>
    r = (if known then tell (A filename) else -1) \<and>
    length (filter s_open (streams ls')) = length (filter s_open (streams ls)) + (if known then 1 else 0) \<and>
    (if known then stderr ls' = stderr ls else \<exists>t. t \<noteq> [] \<and> stderr ls' = stderr ls @ t)"
  unfolding known_def
  by (simp add: getFileSize_def open_for_reading_def print_err_def file_size_texts fclose_def nth_append
      list_update_append)

end
