(* ===== verification/Spec2Isabelle.thy ===== *)
theory Spec2Isabelle
  imports Witnesses Debug_Util
begin

text \<open>
  \<^bold>\<open>fuseadf: an Amiga disk image as a file system.\<close>
  The program (\<open>src/src/\<close>) mounts a volume of an Amiga disk image (ADF) through FUSE. It is made of
  these parts, from the bottom up; ADFlib, which reads and writes the volume, and FUSE, which calls
  the handlers, are libraries outside the repository.

  \<^item> \<open>util.h\<close>: inline functions on path strings in place, and \<open>path_t\<close>, a path split into directory
    and entry name. Theory \<open>Path_Util\<close>, on the C strings and buffers of \<open>C_Strings\<close> and \<open>C_Memory\<close>.
  \<^item> \<open>adffs_util.c\<close>: broken-down time to \<open>time_t\<close>. Theory \<open>Time_Util\<close>.
  \<^item> \<open>adfimage.c\<close>, \<open>adfimage.h\<close>: the image. Its record has the device, the volume and, twice, a
    working directory: the text \<open>cwd\<close> in a buffer of 1024 bytes, and ADFlib's current directory
    inside the volume. Theories \<open>Adf_Chdir\<close> (the record and changing directory), \<open>Adf_Dentry\<close>
    (looking up, counting and classifying entries, permissions), \<open>Adf_File\<close> (open, read, write,
    truncate, readlink), \<open>Adf_Dir\<close> (mkdir, rmdir, unlink, create, rename) and \<open>Adf_Open\<close> (opening
    and closing the image). What ADFlib offers is in \<open>Adf_Lib\<close>, a record of functions that every
    definition takes as its argument \<open>L\<close>.
  \<^item> \<open>adffs.c\<close>, \<open>adffs.h\<close>: the handlers FUSE calls, on the state with the image. Theory \<open>Adffs\<close>.
  \<^item> \<open>log.c\<close>, \<open>adffs_log.c\<close>: the log file. Theory \<open>Log\<close>, on the formatted output of \<open>C_Printf\<close>.
  \<^item> \<open>fuseadf.c\<close>: the command line, theory \<open>Cmdline\<close> on the \<open>getopt\<close> of \<open>C_Getopt\<close>, and \<open>main\<close>,
    theory \<open>Fuseadf\<close>.
  \<^item> \<open>util.c\<close>: a checksum and the size of a file, for debugging; nothing calls them. Theory \<open>Debug_Util\<close>.

  \<open>main\<close> parses \<open>argv\<close>, opens log and image and calls FUSE; FUSE calls \<open>adffs_init\<close>, one handler for
  each request, and \<open>adffs_destroy\<close>, single-threaded because \<open>main\<close> adds \<open>-s\<close>. A handler calls one or
  a few functions of the image; these split the path (\<open>util.h\<close>), change directory, call ADFlib and,
  some of them, change back.

  \<^bold>\<open>How the code is modelled.\<close>
  State is passed explicitly; a C function that may run into undefined behaviour (a null pointer, an
  access outside a buffer) returns an option, and \<open>None\<close> is that behaviour. Where a loop may not end
  (the string functions that look for double slashes and parents, and renaming, which uses them) the
  function is a partial function into \<open>'a cres option\<close>: \<open>None\<close> does not return, \<open>Some UB\<close> is
  undefined, \<open>Some (Ret x)\<close> returns \<open>x\<close>. No fuel is used anywhere: all other loops are structural or
  have a measure (\<open>adfimage_chdir\<close> the length of the path, \<open>parse_args\<close> the arguments left and then
  the characters left to scan, printing a number the number). Sizes and offsets have their widths,
  and the casts between them are written out. The outcomes of allocations are a list of booleans the
  image carries; most theorems assume that they succeed (\<open>heap im = []\<close>), those on opening do not.
  Memory that is not freed is not modelled.

  \<^bold>\<open>What is relied on.\<close>
  Theorems that need it name what they assume of ADFlib: \<open>nav_ok\<close> (going to the root and changing
  directory move the current directory only), \<open>const_ok\<close> and \<open>access_ok\<close> (its constants are different,
  its access bits are separate bits), \<open>files_ok\<close>, \<open>writes_ok\<close>, \<open>truncates_ok\<close>, \<open>renames_ok\<close> (files as
  byte strings; the two on writing speak of files that ADFlib opens for writing), \<open>creates_ok\<close> and
  \<open>enters_listed\<close> (directories do not disappear, and are entered where their entry says), \<open>cur_free\<close> (what works on sectors and open files does not look
  at the current directory) and \<open>reads_within\<close> (a read gives no more bytes than asked for).
  \<open>Sample_Volume\<close> is a small library in memory with all of them, and \<open>Witnesses\<close> applies each theorem
  to it. Of the C library, \<open>getopt\<close> permutes (\<open>POSIXLY_CORRECT\<close> is not set).

  \<^bold>\<open>What is proved.\<close>
  \<open>Path_Util\<close>: on which strings each function returns and what it makes of them. \<open>Time_Util\<close>: the
  conversion is inverse to the calendar and strictly monotone. \<open>Adf_Chdir\<close>: changing directory
  computes a walk through the tree, and by an absolute path it brings the two working directories
  in step (\<open>in_sync\<close>). They are not in step after every request: \<open>homed\<close> is the image after a change
  to its own \<open>cwd\<close>, which is where the functions that come back end, and the image itself if the two
  agree; the properties of those functions are stated with it, for any canonical \<open>cwd\<close> (\<open>cwd_ok\<close>).
  \<open>Adf_Dentry\<close>,
  \<open>Adf_File\<close>, \<open>Adf_Dir\<close>: each operation in terms of that walk and of ADFlib's answer there, the error
  branches, where it leaves the working directory, and the bounds that the widths impose; the locale
  \<open>image_op\<close> is what all of them keep of the image. \<open>Adf_Open\<close>: all that was acquired is
  released on every error, by an inductive protocol of acquisitions and releases. \<open>Adffs_Spec\<close> has an
  abstract specification of every request, on a volume and canonical paths only, and shows that the
  functions of the image compute it; \<open>Adffs_Refine\<close> lifts this to the handlers and \<open>Adffs_Runs\<close>, through
  the locale \<open>simulation\<close>, to sequences of requests: what they are answered, when they all are, and that
  the answers do not depend on where earlier requests left the working directory. The locale has two
  interpretations: the handler table as it is, and with the look-up of the root among the requests
  and the size it reports struck out of the replies (\<open>seen_oper\<close>). \<open>Log\<close>: the locale
  \<open>log_writer\<close> for everything that writes to the log, and what ends up in the file. \<open>Debug_Util\<close>: what the checksum computes and what
  taking a file's size leaves open. \<open>Cmdline\<close>: the scan ends and stays inside
  \<open>argv\<close>, what it makes of command lines with each option in a word of its own, and that it prints only when it refuses
  one. \<open>Fuseadf\<close>: the program from its start to \<open>adffs_destroy\<close>. This theory has the properties of whole runs.

  The properties on requests are about canonical paths, which FUSE uses: a slash in front of each name,
  no name empty, a dot or two dots. Two bounds come from the buffer of 1024 bytes: a path has to fit in
  it, and because creating and removing move to the root of the volume without resetting the text,
  that every run is answered in full is shown with the look-up that precedes each of them, as FUSE
  makes it, and with paths of at most 512 characters for them. On the root itself the requests are
  those that a root has: looking it up, listing it, its permissions, owner and times, and the
  statistics. The size that looking it up reports depends on the requests before, so that look-up is
  left out of the first refinement.

  \<^bold>\<open>Not modelled.\<close>
  The branches compiled under \<open>DEBUG_ADFFS\<close> and \<open>DEBUG_ADFIMAGE\<close>, which are not defined; the lines the
  handlers and the image functions write to the log and to the standard streams, which nothing reads
  back (the functions that write them are in \<open>Log\<close>), and the messages of \<open>getopt\<close>;
  \<open>path_free\<close> and other releases of memory; \<open>tzset\<close>; code that is commented out.
\<close>

section \<open>Properties of whole runs\<close>

text \<open>
  C1: A sequence of requests by canonical paths, of every kind the table of operations has (on the
  root itself, listing it, its permissions, owner and times, and the statistics; \<open>getattr\<close> of the
  root is left out), refines the specification that knows only the volume: on every state that represents the volume the handlers give exactly the specified replies,
  whatever the working directory was left at by the requests before, and end in a state that
  represents the specified volume; where the specification is undefined, so is the code, and
  where it does not return (a rename below a directory whose name has a \<open>..\<close> that the code
  rewrites), neither does the code. The premise on the lengths is that \<open>cwd\<close>, as long as it can
  get, fits its 1024 bytes.
\<close>

theorem requests_refine_specification:
  assumes "nav_ok L" "cur_free L" "fs_represents L blk k st v" "list_all covered rs"
    and "stays_below ADFIMAGE_MAX_PATH cwd_bound k rs"
  shows "case runs (spec_step L env blk) rs v of
      None \<Rightarrow> runs (adffs_oper L env) rs st = None
    | Some UB \<Rightarrow> runs (adffs_oper L env) rs st = Some UB
    | Some (Ret (replies, v')) \<Rightarrow>
        \<exists>k' st'. runs (adffs_oper L env) rs st = Some (Ret (replies, st')) \<and> fs_represents L blk k' st' v' \<and>
          k' < ADFIMAGE_MAX_PATH"
  using fuse_ops.runs_refine [of L blk k st v rs env] assms by (simp add: list_all_iff)

theorem requests_refine_specification_witness:
  "\<exists>st'. runs (adffs_oper tiny_lib tiny_env) [Readdir (abspath [''docs'']) 3, Chown ''/readme'' 0 0] tiny_state =
    Some (Ret ([NamesReply (- EAGAIN) [''.'', ''..'', ''a.txt''], Status 0], st'))"
proof -
  have c: "components (abspath [''docs'']) = [''docs'']" "canonical (abspath [''docs''])"
    by (rule components_abspath, simp) (rule canonicalI, simp)
  have spec: "runs (spec_step tiny_lib tiny_env 4096) [Readdir (abspath [''docs'']) 3, Chown ''/readme'' 0 0]
      tiny_volume = Some (Ret ([NamesReply (- EAGAIN) [''.'', ''..'', ''a.txt''], Status 0], tiny_volume\<lparr>curDirPtr := 900\<rparr>))"
    by (simp add: c [simplified] spec_step_def spec_readdir_def tiny_walk_to list_filler_def)
  have "list_all covered [Readdir (abspath [''docs'']) 3, Chown ''/readme'' 0 0]"
    by (simp add: c [simplified])
  moreover have "stays_below ADFIMAGE_MAX_PATH cwd_bound 1 [Readdir (abspath [''docs'']) 3, Chown ''/readme'' 0 0]"
    by (simp add: abspath_def)
  ultimately show ?thesis
    using requests_refine_specification [OF tiny_nav tiny_cur_free tiny_represents, of "[Readdir (abspath [''docs'']) 3, Chown ''/readme'' 0 0]" tiny_env]
      spec by auto
qed

text \<open>
  C7: What FUSE gets to see does not depend on the requests before, beyond what they did to the
  volume, except for one number: the size that \<open>getattr\<close> reports of the root, which is struck out
  of the replies here. Two states that represent one volume, their working directories and \<open>cwd\<close>
  left anywhere, answer every sequence of requests alike, by canonical paths with \<open>cwd\<close>, as long as
  it can get, fitting its buffer. On the root itself the requests are those that a root has: looking
  it up, listing it, its permissions, owner and times, and the statistics.
\<close>

theorem answers_independent_of_history:
  assumes "nav_ok L" "cur_free L" "fs_represents L blk k st v" "fs_represents L blk k' st' v"
    and "list_all served rs" "stays_below ADFIMAGE_MAX_PATH seen_bound k rs"
      "stays_below ADFIMAGE_MAX_PATH seen_bound k' rs"
    and "runs (seen_oper L env) rs st = Some (Ret (replies, t))"
  shows "\<exists>t'. runs (seen_oper L env) rs st' = Some (Ret (replies, t'))"
  using fuse_seen.same_answers [of L blk k st v k' st' rs env replies t] assms by (simp add: list_all_iff)

theorem answers_independent_of_history_witness:
  "\<exists>replies t t'. runs (seen_oper tiny_lib tiny_env) [Getattr ''/'', Readdir (abspath [''docs'']) 3] tiny_state =
      Some (Ret (replies, t)) \<and>
    runs (seen_oper tiny_lib tiny_env) [Getattr ''/'', Readdir (abspath [''docs'']) 3]
      (tiny_state\<lparr>image := Some tiny_image_moved\<rparr>) = Some (Ret (replies, t')) \<and>
    replies ! 1 = NamesReply (- EAGAIN) [''.'', ''..'', ''a.txt'']"
proof -
  let ?rs = "[Getattr ''/'', Readdir (abspath [''docs'']) 3]"
  have c: "components (abspath [''docs'']) = [''docs'']" "canonical (abspath [''docs''])"
    by (rule components_abspath, simp) (rule canonicalI, simp)
  have "\<exists>sb w. runs (spec_seen tiny_lib tiny_env 4096) ?rs tiny_volume =
      Some (Ret ([StatReply 0 sb, NamesReply (- EAGAIN) [''.'', ''..'', ''a.txt'']], w))"
    by (simp add: c [simplified] spec_seen_def spec_step_def spec_readdir_def tiny_walk_to list_filler_def)
  then obtain sb w where spec: "runs (spec_seen tiny_lib tiny_env 4096) ?rs tiny_volume =
      Some (Ret ([StatReply 0 sb, NamesReply (- EAGAIN) [''.'', ''..'', ''a.txt'']], w))" by blast
  have ok: "list_all served ?rs" by (simp add: served_def c [simplified])
  have below: "stays_below ADFIMAGE_MAX_PATH seen_bound 1 ?rs" "stays_below ADFIMAGE_MAX_PATH seen_bound 9 ?rs"
    by (simp_all add: seen_bound_def abspath_def)
  have moved: "fs_represents tiny_lib 4096 9 (tiny_state\<lparr>image := Some tiny_image_moved\<rparr>) tiny_volume"
    by (simp add: fs_represents_def represents_def tiny_image_moved_def)
      (intro exI [of _ "[''docs'', ''sub'']"], simp add: abspath_def)
  from fuse_seen.runs_refine [OF tiny_represents _ below(1), of tiny_env] ok spec tiny_nav tiny_cur_free obtain t where
    run: "runs (seen_oper tiny_lib tiny_env) ?rs tiny_state =
      Some (Ret ([StatReply 0 sb, NamesReply (- EAGAIN) [''.'', ''..'', ''a.txt'']], t))"
    by (auto simp: list_all_iff)
  from answers_independent_of_history [OF tiny_nav tiny_cur_free tiny_represents moved ok below run] run
  show ?thesis by auto
qed

text \<open>
  C2: The program serves for as long as it is asked to. When \<open>main\<close> has called FUSE, any
  sequence of requests by canonical paths that fit (below 1024 characters, and at most 512 for
  what creates or removes), with room for what they ask for, is answered in full, one reply for
  each, however many they are, provided each path is looked up before it is created or removed
  and no rename runs into a directory name the code rewrites; and \<open>adffs_destroy\<close> then returns,
  with everything acquired since the start released and every stream closed. On the root itself
  the requests are those that a root has: looking it up, listing it, its permissions, owner and
  times, and the statistics. Without the look-ups the working directory would outgrow its buffer.
\<close>

theorem program_serves:
  assumes "nav_ok L" "cur_free L" "reads_within L"
    and "fuseadf_main S M L (length xs) (vec xs 1) [] = Some (Fuse_main n a st, ls, evs)"
    and "list_all (\<lambda>r. served r \<and> sized r \<and> short r \<and> \<not> hangs r) rs"
    and "log_messages ms ls = Some ls'"
  shows "\<exists>replies st' st'' ls'' evs'. runs (adffs_oper L env) (with_lookups rs) (adffs_init st) = Some (Ret (replies, st')) \<and>
    length replies = length (with_lookups rs) \<and>
    adffs_destroy st' ls' = Some (st'', ls'', evs') \<and> res_run nothing (evs @ evs') nothing \<and> all_closed ls''"
proof -
  from main_represents [OF assms(4), of L] obtain blk v where rep: "fs_represents L blk 1 (adffs_init st) v"
    by auto
  have "1 < ADFIMAGE_MAX_PATH" by (simp add: ADFIMAGE_MAX_PATH_def)
  from requests_answered [OF assms(1-3) rep this assms(5)] obtain replies st' where
    "runs (adffs_oper L env) (with_lookups rs) (adffs_init st) = Some (Ret (replies, st'))"
    "length replies = length (with_lookups rs)" by blast
  with program_released [OF assms(4) this(1) assms(6)] show ?thesis by blast
qed

theorem program_serves_witness:
  "\<exists>n a st ls evs replies st'. fuseadf_main tiny_system tiny_mount tiny_lib (length tiny_command) (vec tiny_command 1) [] =
      Some (Fuse_main n a st, ls, evs) \<and>
    runs (adffs_oper tiny_lib tiny_env) (with_lookups (replicate 1000 (Create ''/docs/new'' 0))) (adffs_init st) =
      Some (Ret (replies, st')) \<and> length replies = 2000"
proof -
  obtain n a st ls evs where
    main: "fuseadf_main tiny_system tiny_mount tiny_lib (length tiny_command) (vec tiny_command 1) [] =
      Some (Fuse_main n a st, ls, evs)"
    and logged: "log_messages [(''hello'', [])] ls = Some (log_added ''hello\<newline>'' ls)" by (rule tiny_main)
  let ?r = "Create ''/docs/new'' 0"
  have "canonical (abspath [''docs'', ''new''])" by (rule canonicalI) simp
  then have "served ?r \<and> sized ?r \<and> short ?r \<and> \<not> hangs ?r" by (simp add: abspath_def ADFIMAGE_MAX_PATH_def served_def)
  then have "list_all (\<lambda>r. served r \<and> sized r \<and> short r \<and> \<not> hangs r) (replicate 1000 ?r)"
    by (simp add: list_all_iff)
  from program_serves [OF tiny_nav tiny_cur_free tiny_reads_within main this logged, of tiny_env]
  obtain replies st' where
    run: "runs (adffs_oper tiny_lib tiny_env) (with_lookups (replicate 1000 ?r)) (adffs_init st) = Some (Ret (replies, st'))"
    and replies: "length replies = length (with_lookups (replicate 1000 ?r))" by blast
  have len: "length (with_lookups (replicate k ?r)) = 2 * k" for k
    by (induction k) simp_all
  have "length replies = 2000" unfolding replies len by simp
  with main run show ?thesis by (intro exI conjI)
qed

end
